theory Spec2Isabelle
  imports Main
begin

section \<open>Overview\<close>

text \<open>
  A shallow embedding of the sysfs feature source of node-feature-discovery. The
  repository holds three versions of the same Go file:
  \<^item> \<^verbatim>\<open>source/sysfs/sysfs.go\<close>: bounded read of 62 bytes, names cut to the last 64
    bytes, a replacement pass in \<^verbatim>\<open>GetLabels\<close> (suffix \<open>_sysfs\<close>, or \<open>_simple\<close> for what
    it shares with the second version);
  \<^item> \<^verbatim>\<open>part_000\<close>: whole-file read, leading strip and run replacement of the value, no
    pass in \<^verbatim>\<open>GetLabels\<close> (suffix \<open>_part000\<close>);
  \<^item> \<^verbatim>\<open>part_001\<close>: \<^verbatim>\<open>/sys\<close> prefix removal, \<^verbatim>\<open>os.Stat\<close> before reading,
    \<^verbatim>\<open>convertToLabel\<close>, names cut to at most 55 bytes after a dot (suffix \<open>_part001\<close>
    or \<open>_refined\<close>).

  A Go string is a sequence of bytes, here a \<open>string\<close> (a list of 8-bit \<open>char\<close>).
  A run-time panic of the Go code is the value \<open>None\<close>. The Go standard library
  functions the code calls are modelled by what they compute on byte strings.
\<close>

section \<open>Go strings\<close>

text \<open>
  The slice expression \<^verbatim>\<open>s[i:]\<close>: Go panics when \<open>i\<close> is negative or beyond
  \<open>len(s)\<close>.
\<close>

definition sliceFrom :: "string \<Rightarrow> int \<Rightarrow> string option" where
  "sliceFrom s i = (if 0 \<le> i \<and> i \<le> int (length s) then Some (drop (nat i) s) else None)"

text \<open>
  \<^verbatim>\<open>strings.Replace(s, old, new, -1)\<close> for a one-byte \<open>old\<close> and \<open>new\<close>, the only
  form the source uses (\<^verbatim>\<open>"/"\<close> to \<^verbatim>\<open>"."\<close>): every occurrence is replaced.
\<close>

definition strings_Replace :: "string \<Rightarrow> char \<Rightarrow> char \<Rightarrow> string" where
  "strings_Replace s old new = map (\<lambda>c. if c = old then new else c) s"

text \<open>
  \<^verbatim>\<open>strings.Index(s, sep)\<close> for a one-byte \<open>sep\<close>: the index of the first
  occurrence, or \<open>-1\<close> when there is none.
\<close>

fun strings_Index :: "string \<Rightarrow> char \<Rightarrow> int" where
  "strings_Index [] sep = - 1"
| "strings_Index (c # cs) sep =
     (if c = sep then 0
      else (let r = strings_Index cs sep in if r < 0 then - 1 else r + 1))"

text \<open>
  \<^verbatim>\<open>strings.HasPrefix(s, p)\<close>.
\<close>

definition strings_HasPrefix :: "string \<Rightarrow> string \<Rightarrow> bool" where
  "strings_HasPrefix s p = (take (length p) s = p)"

text \<open>
  \<^verbatim>\<open>strings.Join(elems, sep)\<close>.
\<close>

fun strings_Join :: "string list \<Rightarrow> string \<Rightarrow> string" where
  "strings_Join [] sep = []"
| "strings_Join [e] sep = e"
| "strings_Join (e # es) sep = e @ sep @ strings_Join es sep"

section \<open>Character classes and the regular expressions of the source\<close>

text \<open>
  The bytes \<^verbatim>\<open>A-Za-z0-9\<close>. The two character classes of the source are
  \<^verbatim>\<open>[-A-Za-z0-9]\<close> and \<^verbatim>\<open>[-A-Za-z0-9_.]\<close>; the regular expressions negate them.
\<close>

definition isAlnum :: "char \<Rightarrow> bool" where
  "isAlnum c = (let n = (of_char c :: nat) in
      (48 \<le> n \<and> n \<le> 57) \<or> (65 \<le> n \<and> n \<le> 90) \<or> (97 \<le> n \<and> n \<le> 122))"

definition inStartEndClass :: "char \<Rightarrow> bool" where
  "inStartEndClass c = (c = CHR ''-'' \<or> isAlnum c)"

definition inLabelClass :: "char \<Rightarrow> bool" where
  "inLabelClass c = (c = CHR ''-'' \<or> isAlnum c \<or> c = CHR ''_'' \<or> c = CHR ''.'')"

text \<open>
  \<^verbatim>\<open>regexp.MustCompile(`^[^...]+`).ReplaceAllString(s, repl)\<close> for a replacement
  without \<^verbatim>\<open>$\<close>: the longest leading run of bytes outside the class is replaced.
  \<open>bad\<close> holds of the bytes outside the class. Every byte of a multi-byte rune, and
  every byte of an invalid encoding, is at least \<open>0x80\<close> and so outside both classes:
  a maximal run of runes outside the class is a maximal run of bytes outside it, and
  the byte-level model computes what Go's rune-level matching computes.
\<close>

definition replaceLeadingRun :: "(char \<Rightarrow> bool) \<Rightarrow> string \<Rightarrow> string \<Rightarrow> string" where
  "replaceLeadingRun bad repl s =
     (case s of [] \<Rightarrow> [] | c # cs \<Rightarrow> if bad c then repl @ dropWhile bad cs else s)"

text \<open>
  \<^verbatim>\<open>regexp.MustCompile(`[^...]+`).ReplaceAllString(s, repl)\<close>: every maximal run of
  bytes outside the class is replaced by one copy of \<open>repl\<close>.
\<close>

function replaceRuns :: "(char \<Rightarrow> bool) \<Rightarrow> string \<Rightarrow> string \<Rightarrow> string" where
  "replaceRuns bad repl [] = []"
| "replaceRuns bad repl (c # cs) =
     (if bad c then repl @ replaceRuns bad repl (dropWhile bad cs)
      else c # replaceRuns bad repl cs)"
  by pat_completeness auto
termination
  by (relation "measure (\<lambda>(bad, repl, s). length s)")
     (auto simp: le_imp_less_Suc length_dropWhile_le)

text \<open>
  \<^verbatim>\<open>regexp.MustCompile(`[^...]+$`).ReplaceAllString(s, repl)\<close>: the leftmost match
  is the whole trailing run of bytes outside the class.
\<close>

definition replaceTrailingRun :: "(char \<Rightarrow> bool) \<Rightarrow> string \<Rightarrow> string \<Rightarrow> string" where
  "replaceTrailingRun bad repl s =
     rev (replaceLeadingRun bad (rev repl) (rev s))"

text \<open>
  \<^verbatim>\<open>unicode/utf8\<close>: the width in bytes of the first rune of a string, as
  \<^verbatim>\<open>utf8.DecodeRuneInString\<close> reports it. An invalid or truncated encoding is one
  rune (\<^verbatim>\<open>RuneError\<close>) of width 1. \<open>utf8_second\<close> is the range accepted for the
  second byte, which depends on the first.
\<close>

definition utf8_cont :: "char \<Rightarrow> bool" where
  "utf8_cont b = (let x = (of_char b :: nat) in 0x80 \<le> x \<and> x \<le> 0xBF)"

definition utf8_second :: "nat \<Rightarrow> char \<Rightarrow> bool" where
  "utf8_second x0 b =
     (let x = (of_char b :: nat);
          lo = (if x0 = 0xE0 then 0xA0 else if x0 = 0xF0 then 0x90 else 0x80);
          hi = (if x0 = 0xED then 0x9F else if x0 = 0xF4 then 0x8F else 0xBF)
      in lo \<le> x \<and> x \<le> hi)"

fun utf8_width :: "string \<Rightarrow> nat" where
  "utf8_width [] = 0"
| "utf8_width (b0 # bs) =
     (let x0 = (of_char b0 :: nat) in
      if x0 < 0x80 then 1
      else if 0xC2 \<le> x0 \<and> x0 \<le> 0xDF then
        (case bs of b1 # _ \<Rightarrow> if utf8_second x0 b1 then 2 else 1 | _ \<Rightarrow> 1)
      else if 0xE0 \<le> x0 \<and> x0 \<le> 0xEF then
        (case bs of b1 # b2 # _ \<Rightarrow> if utf8_second x0 b1 \<and> utf8_cont b2 then 3 else 1 | _ \<Rightarrow> 1)
      else if 0xF0 \<le> x0 \<and> x0 \<le> 0xF4 then
        (case bs of b1 # b2 # b3 # _ \<Rightarrow>
           if utf8_second x0 b1 \<and> utf8_cont b2 \<and> utf8_cont b3 then 4 else 1 | _ \<Rightarrow> 1)
      else 1)"

text \<open>
  \<^verbatim>\<open>regexp.MustCompile(`[^-A-Za-z0-9_.]`).ReplaceAllString(s, repl)\<close>, the pass of
  \<^verbatim>\<open>GetLabels\<close> in \<^verbatim>\<open>sysfs.go\<close> (lines 93-97): the expression has no \<^verbatim>\<open>+\<close>,
  so each rune outside the class is replaced on its own, a multi-byte rune by one
  copy of \<open>repl\<close>.
\<close>

function replaceRunes :: "string \<Rightarrow> string \<Rightarrow> string" where
  "replaceRunes repl [] = []"
| "replaceRunes repl (c # cs) =
     (if inLabelClass c then c # replaceRunes repl cs
      else repl @ replaceRunes repl (drop (utf8_width (c # cs) - 1) cs))"
  by pat_completeness auto
termination
  by (relation "measure (\<lambda>(repl, s). length s)") auto

section \<open>path/filepath\<close>

text \<open>
  \<^verbatim>\<open>filepath.IsAbs\<close> on Unix: the path starts with a slash.
\<close>

definition filepath_IsAbs :: "string \<Rightarrow> bool" where
  "filepath_IsAbs path = strings_HasPrefix path ''/''"

text \<open>
  \<^verbatim>\<open>filepath.Clean\<close> on Unix, following the loop of the Go standard library. The
  output buffer is \<open>out\<close>, \<open>dotdot\<close> is the index below which a \<^verbatim>\<open>..\<close> element must
  not remove anything. \<open>backtrack out dotdot w\<close> is the inner loop of the \<^verbatim>\<open>..\<close>
  case, started after \<^verbatim>\<open>out.w--\<close>: it moves \<open>w\<close> down to the last separator.
  It is started at the last index of the buffer, so every index it reads is inside.
\<close>

fun backtrack :: "string \<Rightarrow> nat \<Rightarrow> nat \<Rightarrow> nat" where
  "backtrack out dotdot 0 = 0"
| "backtrack out dotdot (Suc w) =
     (if Suc w > dotdot \<and> out ! Suc w \<noteq> CHR ''/'' then backtrack out dotdot w else Suc w)"

text \<open>
  The main loop of \<^verbatim>\<open>Clean\<close> over the unread rest of the path. Its four cases, in
  the order of the source: an empty element, a \<^verbatim>\<open>.\<close> element, a \<^verbatim>\<open>..\<close> element, a
  real element, which is copied up to the next separator.
\<close>

function cleanLoop :: "bool \<Rightarrow> string \<Rightarrow> string \<Rightarrow> nat \<Rightarrow> string" where
  "cleanLoop rooted [] out dotdot = out"
| "cleanLoop rooted (c # cs) out dotdot =
     (if c = CHR ''/'' then cleanLoop rooted cs out dotdot
      else if c = CHR ''.'' \<and> (cs = [] \<or> hd cs = CHR ''/'') then cleanLoop rooted cs out dotdot
      else if c = CHR ''.'' \<and> hd cs = CHR ''.'' \<and> (tl cs = [] \<or> hd (tl cs) = CHR ''/'') then
        (if length out > dotdot then
           cleanLoop rooted (tl cs) (take (backtrack out dotdot (length out - 1)) out) dotdot
         else if \<not> rooted then
           (let out' = (if length out > 0 then out @ ''/'' else out) @ ''..''
            in cleanLoop rooted (tl cs) out' (length out'))
         else cleanLoop rooted (tl cs) out dotdot)
      else
        (let out' = (if (rooted \<and> length out \<noteq> 1) \<or> (\<not> rooted \<and> length out \<noteq> 0)
                     then out @ ''/'' else out)
         in cleanLoop rooted (dropWhile (\<lambda>x. x \<noteq> CHR ''/'') cs)
              (out' @ c # takeWhile (\<lambda>x. x \<noteq> CHR ''/'') cs) dotdot))"
  by pat_completeness auto
termination
  by (relation "measure (\<lambda>(rooted, path, out, dotdot). length path)")
     (auto simp: le_imp_less_Suc length_dropWhile_le)

definition filepath_Clean :: "string \<Rightarrow> string" where
  "filepath_Clean path =
     (if path = [] then ''.''
      else
        (let rooted = (hd path = CHR ''/'');
             out = (if rooted then cleanLoop True (tl path) ''/'' 1
                    else cleanLoop False path [] 0)
         in if out = [] then ''.'' else out))"

text \<open>
  \<^verbatim>\<open>filepath.Join\<close> on Unix: leading empty elements are dropped, the rest is joined
  with slashes and cleaned; the result is empty when every element is empty.
\<close>

fun filepath_Join :: "string list \<Rightarrow> string" where
  "filepath_Join [] = []"
| "filepath_Join (e # es) =
     (if e \<noteq> [] then filepath_Clean (strings_Join (e # es) ''/'') else filepath_Join es)"

section \<open>buildAttributeName\<close>

text \<open>
  \<^verbatim>\<open>sysfs.go\<close> lines 135-143, and the same lines of \<^verbatim>\<open>part_000\<close>: slashes become
  dots, the first byte is dropped, and a name longer than 64 bytes keeps its last 64.
\<close>

definition buildAttributeName_simple :: "string \<Rightarrow> string option" where
  "buildAttributeName_simple attr =
     (case sliceFrom (strings_Replace attr CHR ''/'' CHR ''.'') 1 of
        None \<Rightarrow> None
      | Some name \<Rightarrow>
          if int (length name) > 64 then sliceFrom name (int (length name) - 64)
          else Some name)"

text \<open>
  \<^verbatim>\<open>part_001\<close> lines 133-148. For a name longer than 55 bytes the window is its last
  55 bytes; \<open>offset\<close> is one more than the index of the first dot of the window, so it
  is \<open>0\<close> when the window has no dot.
\<close>

definition buildAttributeName_refined :: "string \<Rightarrow> string option" where
  "buildAttributeName_refined attr =
     (case sliceFrom (strings_Replace attr CHR ''/'' CHR ''.'') 1 of
        None \<Rightarrow> None
      | Some name \<Rightarrow>
          if int (length name) > 55 then
            (let start = int (length name) - 55 in
             case sliceFrom name start of
               None \<Rightarrow> None
             | Some window \<Rightarrow>
                 (let offset = strings_Index window CHR ''.'' + 1
                  in sliceFrom name (start + offset)))
          else Some name)"

section \<open>convertToLabel\<close>

text \<open>
  \<^verbatim>\<open>part_001\<close> lines 150-168. The slice \<^verbatim>\<open>value[:62]\<close> is taken only when the
  value is longer than 62 bytes, so it cannot panic.
\<close>

definition convertToLabel :: "string \<Rightarrow> string" where
  "convertToLabel str =
     (if str = [] then str
      else
        (let v1 = replaceLeadingRun (\<lambda>c. \<not> inStartEndClass c) [] str;
             v2 = replaceRuns (\<lambda>c. \<not> inLabelClass c) ''_'' v1;
             v3 = (if length v2 > 62 then take 62 v2 else v2)
         in replaceTrailingRun (\<lambda>c. \<not> inStartEndClass c) [] v3))"

section \<open>The file system as package os shows it\<close>

text \<open>
  What the source can observe of a path through \<^verbatim>\<open>os.Stat\<close>, \<^verbatim>\<open>os.Open\<close>,
  \<^verbatim>\<open>File.Read\<close> and \<^verbatim>\<open>os.ReadFile\<close>. A path holds no reachable node (both
  \<^verbatim>\<open>Stat\<close> and \<^verbatim>\<open>Open\<close> fail with the given error), a directory, or a regular
  file whose content can be read, cannot be opened, or opens and then fails to read.
  \<open>EOF\<close> stands for \<^verbatim>\<open>io.EOF\<close>.
\<close>

datatype oserror = ENOENT | ENOTDIR | EACCES | EPERM | EISDIR | EIO | EOF

datatype fileio = OpenError oserror | ReadError oserror | Content string

datatype node = NoNode oserror | Directory | Regular fileio

type_synonym filesystem = "string \<Rightarrow> node"

text \<open>
  \<^verbatim>\<open>os.IsPermission\<close>: the error is \<^verbatim>\<open>EACCES\<close> or \<^verbatim>\<open>EPERM\<close>.
\<close>

definition os_IsPermission :: "oserror \<Rightarrow> bool" where
  "os_IsPermission e = (e = EACCES \<or> e = EPERM)"

definition os_Stat :: "filesystem \<Rightarrow> string \<Rightarrow> oserror + bool" where
  "os_Stat fs path =
     (case fs path of
        NoNode e \<Rightarrow> Inl e
      | Directory \<Rightarrow> Inr True
      | Regular _ \<Rightarrow> Inr False)"

text \<open>
  \<^verbatim>\<open>os.Open\<close> succeeds on a directory; the file handle is modelled by the node.
\<close>

definition os_Open :: "filesystem \<Rightarrow> string \<Rightarrow> oserror + node" where
  "os_Open fs path =
     (case fs path of
        NoNode e \<Rightarrow> Inl e
      | Directory \<Rightarrow> Inr Directory
      | Regular (OpenError e) \<Rightarrow> Inl e
      | Regular io \<Rightarrow> Inr (Regular io))"

text \<open>
  One call of \<^verbatim>\<open>File.Read\<close> with a buffer of \<open>n\<close> bytes on a freshly opened file:
  reading a directory fails with \<^verbatim>\<open>EISDIR\<close>, reading an empty file returns
  \<^verbatim>\<open>io.EOF\<close>, and otherwise the first \<open>n\<close> bytes of the content are returned.
\<close>

definition file_Read :: "node \<Rightarrow> nat \<Rightarrow> oserror + string" where
  "file_Read file n =
     (case file of
        Regular (Content data) \<Rightarrow> if data = [] then Inl EOF else Inr (take n data)
      | Regular (ReadError e) \<Rightarrow> Inl e
      | Regular (OpenError e) \<Rightarrow> Inl e
      | Directory \<Rightarrow> Inl EISDIR
      | NoNode e \<Rightarrow> Inl e)"

definition os_ReadFile :: "filesystem \<Rightarrow> string \<Rightarrow> oserror + string" where
  "os_ReadFile fs path =
     (case os_Open fs path of
        Inl e \<Rightarrow> Inl e
      | Inr file \<Rightarrow>
          (case file of
             Regular (Content data) \<Rightarrow> Inr data
           | Regular (ReadError e) \<Rightarrow> Inl e
           | Regular (OpenError e) \<Rightarrow> Inl e
           | Directory \<Rightarrow> Inl EISDIR
           | NoNode e \<Rightarrow> Inl e))"

section \<open>readSingleParameter\<close>

text \<open>
  The errors \<^verbatim>\<open>readSingleParameter\<close> builds with \<^verbatim>\<open>fmt.Errorf\<close>: the message
  kind, the path and the underlying error.
\<close>

datatype readError = FailedToOpen string oserror | FailedToRead string oserror

text \<open>
  \<^verbatim>\<open>sysfs.go\<close> lines 145-160. \<^verbatim>\<open>strings.TrimSpace\<close> is the parameter
  \<open>trimSpace\<close>; nothing proved below depends on what it computes.
\<close>

definition readSingleParameter_sysfs ::
  "(string \<Rightarrow> string) \<Rightarrow> filesystem \<Rightarrow> string \<Rightarrow> readError + string" where
  "readSingleParameter_sysfs trimSpace fs attrPath =
     (case os_Open fs attrPath of
        Inl err \<Rightarrow> Inl (FailedToOpen attrPath err)
      | Inr file \<Rightarrow>
          (case file_Read file 62 of
             Inl err \<Rightarrow> Inl (FailedToRead attrPath err)
           | Inr bytes \<Rightarrow> Inr (trimSpace bytes)))"

text \<open>
  \<^verbatim>\<open>part_000\<close> lines 141-158.
\<close>

definition readSingleParameter_part000 :: "filesystem \<Rightarrow> string \<Rightarrow> readError + string" where
  "readSingleParameter_part000 fs attrPath =
     (case os_ReadFile fs attrPath of
        Inl err \<Rightarrow> Inl (FailedToRead attrPath err)
      | Inr data \<Rightarrow>
          (let v1 = replaceLeadingRun (\<lambda>c. \<not> inLabelClass c) [] data;
               v2 = replaceRuns (\<lambda>c. \<not> inLabelClass c) ''_'' v1
           in if length v2 > 62 then Inr (take 62 v2) else Inr v2))"

text \<open>
  \<^verbatim>\<open>part_001\<close> lines 171-196.
\<close>

definition readSingleParameter_part001 :: "filesystem \<Rightarrow> string \<Rightarrow> readError + string" where
  "readSingleParameter_part001 fs attrPath =
     (case os_Stat fs attrPath of
        Inl err \<Rightarrow> Inl (FailedToRead attrPath err)
      | Inr isDir \<Rightarrow>
          if isDir then Inr []
          else
            (case os_ReadFile fs attrPath of
               Inl err \<Rightarrow>
                 if os_IsPermission err then Inr []
                 else Inl (FailedToRead attrPath err)
             | Inr data \<Rightarrow> Inr (convertToLabel data)))"

section \<open>Discover\<close>

text \<open>
  The source object: the configured whitelist, and the \<^verbatim>\<open>Elements\<close> map of the
  attribute feature set (\<open>None\<close> while \<^verbatim>\<open>s.features\<close> is nil).
\<close>

record sysfsSource =
  SysfsWhitelist :: "string list"
  features :: "(string \<rightharpoonup> string) option"

text \<open>
  The first statements of the loop body of \<^verbatim>\<open>Discover\<close>, which turn a whitelist
  entry into the cleaned logical path: \<^verbatim>\<open>sysfs.go\<close> lines 113-117 (and the same
  lines of \<^verbatim>\<open>part_000\<close>).
\<close>

definition logicalPath_simple :: "string \<Rightarrow> string" where
  "logicalPath_simple attr =
     filepath_Clean (if \<not> filepath_IsAbs attr then filepath_Join [''/'', attr] else attr)"

text \<open>
  \<^verbatim>\<open>part_001\<close> lines 107-115. The slice \<^verbatim>\<open>attr[4:]\<close> is guarded by
  \<^verbatim>\<open>HasPrefix(attr, "/sys")\<close>, so it is \<open>drop 4\<close> and cannot panic.
\<close>

definition logicalPath_refined :: "string \<Rightarrow> string" where
  "logicalPath_refined attr =
     (let attr1 = (if strings_HasPrefix attr ''/sys'' then drop 4 attr else attr);
          attr2 = (if \<not> filepath_IsAbs attr1 then filepath_Join [''/'', attr1] else attr1)
      in filepath_Clean attr2)"

text \<open>
  One iteration of the loop of \<^verbatim>\<open>Discover\<close> on the \<^verbatim>\<open>Elements\<close> map. The root
  resolution \<^verbatim>\<open>hostpath.SysfsDir.Path\<close> is the parameter \<open>resolve\<close>. A read error
  is logged and the loop continues with the map unchanged.
\<close>

definition discoverEntry_sysfs ::
  "(string \<Rightarrow> string) \<Rightarrow> (string \<Rightarrow> string) \<Rightarrow> filesystem \<Rightarrow> string
     \<Rightarrow> (string \<rightharpoonup> string) \<Rightarrow> (string \<rightharpoonup> string) option" where
  "discoverEntry_sysfs trimSpace resolve fs attr0 elements =
     (let attr = logicalPath_simple attr0;
          sysfsBasePath = resolve attr
      in case readSingleParameter_sysfs trimSpace fs sysfsBasePath of
           Inl err \<Rightarrow> Some elements
         | Inr paramVal \<Rightarrow>
             (case buildAttributeName_simple attr of
                None \<Rightarrow> None
              | Some name \<Rightarrow> Some (elements(name \<mapsto> paramVal))))"

definition discoverEntry_part000 ::
  "(string \<Rightarrow> string) \<Rightarrow> filesystem \<Rightarrow> string
     \<Rightarrow> (string \<rightharpoonup> string) \<Rightarrow> (string \<rightharpoonup> string) option" where
  "discoverEntry_part000 resolve fs attr0 elements =
     (let attr = logicalPath_simple attr0;
          sysfsBasePath = resolve attr
      in case readSingleParameter_part000 fs sysfsBasePath of
           Inl err \<Rightarrow> Some elements
         | Inr paramVal \<Rightarrow>
             (case buildAttributeName_simple attr of
                None \<Rightarrow> None
              | Some name \<Rightarrow> Some (elements(name \<mapsto> paramVal))))"

definition discoverEntry_part001 ::
  "(string \<Rightarrow> string) \<Rightarrow> filesystem \<Rightarrow> string
     \<Rightarrow> (string \<rightharpoonup> string) \<Rightarrow> (string \<rightharpoonup> string) option" where
  "discoverEntry_part001 resolve fs attr0 elements =
     (let attr = logicalPath_refined attr0;
          sysfsBasePath = resolve attr
      in case readSingleParameter_part001 fs sysfsBasePath of
           Inl err \<Rightarrow> Some elements
         | Inr paramVal \<Rightarrow>
             (case buildAttributeName_refined attr of
                None \<Rightarrow> None
              | Some name \<Rightarrow> Some (elements(name \<mapsto> paramVal))))"

text \<open>
  The \<^verbatim>\<open>for ... range s.config.SysfsWhitelist\<close> loop, with \<open>body\<close> its iteration.
\<close>

fun rangeWhitelist ::
  "(string \<Rightarrow> (string \<rightharpoonup> string) \<Rightarrow> (string \<rightharpoonup> string) option)
     \<Rightarrow> string list \<Rightarrow> (string \<rightharpoonup> string) \<Rightarrow> (string \<rightharpoonup> string) option" where
  "rangeWhitelist body [] elements = Some elements"
| "rangeWhitelist body (attr # rest) elements =
     (case body attr elements of
        None \<Rightarrow> None
      | Some elements' \<Rightarrow> rangeWhitelist body rest elements')"

text \<open>
  \<^verbatim>\<open>Discover\<close>: the feature set is rebuilt from an empty map, and the error
  returned is always nil (\<open>None\<close> in the second component).
\<close>

definition Discover_sysfs ::
  "(string \<Rightarrow> string) \<Rightarrow> (string \<Rightarrow> string) \<Rightarrow> filesystem \<Rightarrow> sysfsSource
     \<Rightarrow> (sysfsSource \<times> readError option) option" where
  "Discover_sysfs trimSpace resolve fs s =
     (case rangeWhitelist (discoverEntry_sysfs trimSpace resolve fs) (SysfsWhitelist s) Map.empty of
        None \<Rightarrow> None
      | Some elements \<Rightarrow> Some (s\<lparr>features := Some elements\<rparr>, None))"

definition Discover_part000 ::
  "(string \<Rightarrow> string) \<Rightarrow> filesystem \<Rightarrow> sysfsSource
     \<Rightarrow> (sysfsSource \<times> readError option) option" where
  "Discover_part000 resolve fs s =
     (case rangeWhitelist (discoverEntry_part000 resolve fs) (SysfsWhitelist s) Map.empty of
        None \<Rightarrow> None
      | Some elements \<Rightarrow> Some (s\<lparr>features := Some elements\<rparr>, None))"

definition Discover_part001 ::
  "(string \<Rightarrow> string) \<Rightarrow> filesystem \<Rightarrow> sysfsSource
     \<Rightarrow> (sysfsSource \<times> readError option) option" where
  "Discover_part001 resolve fs s =
     (case rangeWhitelist (discoverEntry_part001 resolve fs) (SysfsWhitelist s) Map.empty of
        None \<Rightarrow> None
      | Some elements \<Rightarrow> Some (s\<lparr>features := Some elements\<rparr>, None))"

section \<open>GetFeatures and GetLabels\<close>

text \<open>
  \<^verbatim>\<open>GetFeatures\<close> followed by \<^verbatim>\<open>.Attributes[sysfsFeature].Elements\<close>: the elements
  of the attribute feature set, empty when nothing was discovered yet.
\<close>

definition GetFeatures :: "sysfsSource \<Rightarrow> (string \<rightharpoonup> string)" where
  "GetFeatures s = (case features s of None \<Rightarrow> Map.empty | Some elements \<Rightarrow> elements)"

text \<open>
  The loop of \<^verbatim>\<open>GetLabels\<close> in \<^verbatim>\<open>sysfs.go\<close> (lines 94-99). Go leaves the
  iteration order of a map unspecified: \<open>order\<close> is the order in which the keys are
  visited.
\<close>

fun rangeElements ::
  "string list \<Rightarrow> (string \<rightharpoonup> string) \<Rightarrow> (string \<rightharpoonup> string) \<Rightarrow> (string \<rightharpoonup> string)" where
  "rangeElements [] elements labels = labels"
| "rangeElements (key # rest) elements labels =
     (case elements key of
        None \<Rightarrow> rangeElements rest elements labels
      | Some v \<Rightarrow>
          rangeElements rest elements
            (labels(replaceRunes ''_'' key \<mapsto> replaceRunes ''_'' v)))"

definition GetLabels_sysfs ::
  "string list \<Rightarrow> sysfsSource \<Rightarrow> (string \<rightharpoonup> string) \<times> readError option" where
  "GetLabels_sysfs order s = (rangeElements order (GetFeatures s) Map.empty, None)"

text \<open>
  \<^verbatim>\<open>GetLabels\<close> of \<^verbatim>\<open>part_000\<close> and of \<^verbatim>\<open>part_001\<close> (lines 89-98 of both):
  every element is copied as it is.
\<close>

definition GetLabels_part000 :: "sysfsSource \<Rightarrow> (string \<rightharpoonup> string) \<times> readError option" where
  "GetLabels_part000 s = (GetFeatures s, None)"

definition GetLabels_part001 :: "sysfsSource \<Rightarrow> (string \<rightharpoonup> string) \<times> readError option" where
  "GetLabels_part001 s = (GetFeatures s, None)"

section \<open>Predicates used in the statements\<close>

text \<open>
  The dotted form of a path, before its first byte is dropped.
\<close>

definition dotted :: "string \<Rightarrow> string" where
  "dotted attr = strings_Replace attr CHR ''/'' CHR ''.''"

definition startsWithDot :: "string \<Rightarrow> bool" where
  "startsWithDot name = strings_HasPrefix name ''.''"

text \<open>
  Two dots next to each other somewhere in a string.
\<close>

fun adjacentDots :: "string \<Rightarrow> bool" where
  "adjacentDots (a # b # cs) = ((a = CHR ''.'' \<and> b = CHR ''.'') \<or> adjacentDots (b # cs))"
| "adjacentDots _ = False"

text \<open>
  The shape of a sanitized value: bytes of \<^verbatim>\<open>[-A-Za-z0-9_.]\<close> only, at most 62 of
  them, the first and the last in \<^verbatim>\<open>[-A-Za-z0-9]\<close>.
\<close>

definition labelShaped :: "string \<Rightarrow> bool" where
  "labelShaped v = (list_all inLabelClass v \<and> length v \<le> 62 \<and>
     (v = [] \<or> (inStartEndClass (hd v) \<and> inStartEndClass (last v))))"

text \<open>
  A cleaned absolute path is a slash followed by path segments joined with slashes;
  a segment is not empty, holds no slash and is neither \<^verbatim>\<open>.\<close> nor \<^verbatim>\<open>..\<close>.
\<close>

definition validSegment :: "string \<Rightarrow> bool" where
  "validSegment s = (s \<noteq> [] \<and> CHR ''/'' \<notin> set s \<and> s \<noteq> ''.'' \<and> s \<noteq> ''..'')"

definition render :: "string list \<Rightarrow> string" where
  "render segs = CHR ''/'' # strings_Join segs ''/''"

section \<open>Properties of the string functions\<close>

lemma replaceRuns_class:
  "list_all (\<lambda>c. \<not> bad c) repl \<Longrightarrow> list_all (\<lambda>c. \<not> bad c) (replaceRuns bad repl s)"
  by (induction bad repl s rule: replaceRuns.induct) auto

lemma replaceRuns_id:
  "list_all (\<lambda>c. \<not> bad c) s \<Longrightarrow> replaceRuns bad repl s = s"
  by (induction s) auto

lemma replaceRuns_hd:
  "s \<noteq> [] \<Longrightarrow> \<not> bad (hd s) \<Longrightarrow> replaceRuns bad repl s \<noteq> [] \<and> hd (replaceRuns bad repl s) = hd s"
  by (cases s) auto

lemma replaceLeadingRun_empty_repl:
  "replaceLeadingRun bad [] s = dropWhile bad s"
  by (cases s) (auto simp: replaceLeadingRun_def)

lemma replaceTrailingRun_empty_repl:
  "replaceTrailingRun bad [] s = rev (dropWhile bad (rev s))"
  by (simp add: replaceTrailingRun_def replaceLeadingRun_empty_repl)

lemma inStartEnd_inLabel: "inStartEndClass c \<Longrightarrow> inLabelClass c"
  by (auto simp: inStartEndClass_def inLabelClass_def)

lemma inStartEnd_not_sep: "inStartEndClass c \<Longrightarrow> c \<noteq> CHR ''_'' \<and> c \<noteq> CHR ''.''"
  by (auto simp: inStartEndClass_def isAlnum_def)

lemma dropWhile_hd_good: "dropWhile bad s \<noteq> [] \<Longrightarrow> \<not> bad (hd (dropWhile bad s))"
  by (metis hd_dropWhile)

lemma strip_trailing_props:
  assumes "v \<noteq> []" "\<not> bad (hd v)"
  shows "rev (dropWhile bad (rev v)) \<noteq> []"
    and "hd (rev (dropWhile bad (rev v))) = hd v"
    and "\<not> bad (last (rev (dropWhile bad (rev v))))"
proof -
  obtain c cs where v: "v = c # cs" using assms(1) by (cases v) auto
  have c: "\<not> bad c" using assms(2) v by simp
  have "c \<in> set (rev v)" using v by simp
  then have ne: "dropWhile bad (rev v) \<noteq> []"
    using c by (metis dropWhile_eq_Nil_conv)
  then show "rev (dropWhile bad (rev v)) \<noteq> []" by simp
  have "\<exists>ys. dropWhile bad (rev v) = ys @ [c]"
  proof -
    have "rev v = rev cs @ [c]" using v by simp
    moreover have "dropWhile bad (rev cs @ [c]) = dropWhile bad (rev cs) @ [c]"
      by (induction "rev cs" arbitrary: cs) (use c in \<open>auto simp: dropWhile_append\<close>)
    ultimately show ?thesis by auto
  qed
  then obtain ys where ys: "dropWhile bad (rev v) = ys @ [c]" by blast
  then show "hd (rev (dropWhile bad (rev v))) = hd v" using v by simp
  show "\<not> bad (last (rev (dropWhile bad (rev v))))"
    using ne by (simp add: last_rev hd_dropWhile)
qed

lemma list_all_rev_dropWhile_rev:
  "list_all P v \<Longrightarrow> list_all P (rev (dropWhile bad (rev v)))"
  by (metis list_all_iff set_dropWhileD set_rev)

lemma length_rev_dropWhile_rev:
  "length (rev (dropWhile bad (rev v))) \<le> length v"
  by (metis length_dropWhile_le length_rev)

lemma rev_dropWhile_rev_id:
  "v \<noteq> [] \<Longrightarrow> \<not> bad (last v) \<Longrightarrow> rev (dropWhile bad (rev v)) = v"
  by (cases "rev v") (auto simp: last_rev [symmetric] simp del: last_rev)

lemma strings_Index_range: "- 1 \<le> strings_Index s c \<and> strings_Index s c < int (length s)"
  by (induction s) (auto simp: Let_def)

lemma strings_Index_absent: "strings_Index s c = - 1 \<longleftrightarrow> c \<notin> set s"
proof (induction s)
  case Nil
  then show ?case by simp
next
  case (Cons x xs)
  have "- 1 \<le> strings_Index xs c" using strings_Index_range [of xs c] by simp
  then show ?case using Cons.IH by (auto simp: Let_def)
qed

lemma strings_Index_found:
  "0 \<le> strings_Index s c \<Longrightarrow> s ! nat (strings_Index s c) = c"
proof (induction s)
  case Nil
  then show ?case by simp
next
  case (Cons x xs)
  show ?case
  proof (cases "x = c")
    case True
    then show ?thesis by simp
  next
    case False
    with Cons.prems have nn: "0 \<le> strings_Index xs c"
      by (auto simp: Let_def split: if_splits)
    then have "strings_Index (x # xs) c = strings_Index xs c + 1"
      using False by (simp add: Let_def)
    moreover have "nat (strings_Index xs c + 1) = Suc (nat (strings_Index xs c))"
      using nn by simp
    ultimately show ?thesis using Cons.IH [OF nn] by simp
  qed
qed

lemma strings_Index_first:
  "0 \<le> strings_Index s c \<Longrightarrow> c \<notin> set (take (nat (strings_Index s c)) s)"
proof (induction s)
  case Nil
  then show ?case by simp
next
  case (Cons x xs)
  show ?case
  proof (cases "x = c")
    case True
    then show ?thesis by simp
  next
    case False
    with Cons.prems have nn: "0 \<le> strings_Index xs c"
      by (auto simp: Let_def split: if_splits)
    then have "strings_Index (x # xs) c = strings_Index xs c + 1"
      using False by (simp add: Let_def)
    moreover have "nat (strings_Index xs c + 1) = Suc (nat (strings_Index xs c))"
      using nn by simp
    ultimately show ?thesis using Cons.IH [OF nn] False by simp
  qed
qed

lemma adjacentDots_nth:
  "\<not> adjacentDots s \<Longrightarrow> Suc i < length s \<Longrightarrow> s ! i = CHR ''.'' \<Longrightarrow> s ! Suc i \<noteq> CHR ''.''"
proof (induction s arbitrary: i rule: adjacentDots.induct)
  case (1 a b cs)
  then show ?case by (cases i) auto
qed simp_all

lemma adjacentDots_tl: "\<not> adjacentDots s \<Longrightarrow> \<not> adjacentDots (tl s)"
  by (induction s rule: adjacentDots.induct) auto

section \<open>The value sanitizer\<close>

text \<open>
  Every result of \<open>convertToLabel\<close> has the shape of a sanitized value, and
  \<open>convertToLabel\<close> leaves a value of that shape as it is.
\<close>

lemma convertToLabel_labelShaped: "labelShaped (convertToLabel str)"
proof (cases "str = []")
  case True
  then show ?thesis by (simp add: convertToLabel_def labelShaped_def)
next
  case False
  define bad1 where "bad1 = (\<lambda>c. \<not> inStartEndClass c)"
  define bad2 where "bad2 = (\<lambda>c. \<not> inLabelClass c)"
  define v1 where "v1 = dropWhile bad1 str"
  define v2 where "v2 = replaceRuns bad2 ''_'' v1"
  define v3 where "v3 = (if length v2 > 62 then take 62 v2 else v2)"
  define v4 where "v4 = rev (dropWhile bad1 (rev v3))"
  have res: "convertToLabel str = v4"
    using False
    by (simp add: convertToLabel_def Let_def replaceLeadingRun_empty_repl
        replaceTrailingRun_empty_repl v4_def v3_def v2_def v1_def bad1_def bad2_def)
  have "list_all (\<lambda>c. \<not> bad2 c) ''_''"
    by (simp add: bad2_def inLabelClass_def)
  then have "list_all (\<lambda>c. \<not> bad2 c) v2"
    unfolding v2_def by (rule replaceRuns_class)
  then have cls2: "list_all inLabelClass v2"
    by (simp add: bad2_def)
  have cls3: "list_all inLabelClass v3"
    using cls2 by (auto simp: v3_def list_all_iff dest: in_set_takeD)
  have len3: "length v3 \<le> 62" by (simp add: v3_def)
  have cls4: "list_all inLabelClass v4"
    unfolding v4_def using cls3 by (rule list_all_rev_dropWhile_rev)
  have len4: "length v4 \<le> 62"
    using len3 length_rev_dropWhile_rev [of bad1 v3] by (simp add: v4_def)
  have ends: "v4 = [] \<or> (inStartEndClass (hd v4) \<and> inStartEndClass (last v4))"
  proof (cases "v1 = []")
    case True
    then show ?thesis by (simp add: v4_def v3_def v2_def)
  next
    case ne1: False
    have h1: "\<not> bad1 (hd v1)" using ne1 unfolding v1_def by (rule dropWhile_hd_good)
    then have h1': "\<not> bad2 (hd v1)"
      by (auto simp: bad1_def bad2_def dest: inStartEnd_inLabel)
    have ne2: "v2 \<noteq> []" and hd2: "hd v2 = hd v1"
      using replaceRuns_hd [of v1 bad2 "''_''"] ne1 h1' by (simp_all add: v2_def)
    have ne3: "v3 \<noteq> []" using ne2 by (auto simp: v3_def)
    have hd3: "hd v3 = hd v1" using ne2 hd2 by (auto simp: v3_def hd_take)
    have b3: "\<not> bad1 (hd v3)" using h1 hd3 by simp
    show ?thesis
      using strip_trailing_props [of v3 bad1] ne3 b3 h1 hd3
      by (simp add: v4_def bad1_def)
  qed
  show ?thesis
    unfolding res labelShaped_def using cls4 len4 ends by simp
qed

lemma convertToLabel_fixes_labelShaped:
  assumes "labelShaped v"
  shows "convertToLabel v = v"
proof (cases "v = []")
  case True
  then show ?thesis by (simp add: convertToLabel_def)
next
  case False
  define bad1 where "bad1 = (\<lambda>c. \<not> inStartEndClass c)"
  define bad2 where "bad2 = (\<lambda>c. \<not> inLabelClass c)"
  from assms False have cls: "list_all inLabelClass v" and len: "length v \<le> 62"
    and h: "inStartEndClass (hd v)" and l: "inStartEndClass (last v)"
    by (auto simp: labelShaped_def)
  have s1: "dropWhile bad1 v = v"
    using False h by (cases v) (auto simp: bad1_def)
  have s2: "replaceRuns bad2 ''_'' v = v"
    using cls by (intro replaceRuns_id) (simp add: bad2_def)
  have s4: "rev (dropWhile bad1 (rev v)) = v"
    using False l by (intro rev_dropWhile_rev_id) (simp_all add: bad1_def)
  show ?thesis
    using False len s1 s2 s4
    by (simp add: convertToLabel_def Let_def replaceLeadingRun_empty_repl
        replaceTrailingRun_empty_repl bad1_def bad2_def)
qed

text \<open>
  Claim C2, as amended. For every input, \<open>convertToLabel\<close> returns at most 62 bytes,
  all of them in \<^verbatim>\<open>[-A-Za-z0-9_.]\<close>, and a result that is not empty starts and ends
  with a byte of \<^verbatim>\<open>[-A-Za-z0-9]\<close>: never with \<^verbatim>\<open>_\<close> or \<^verbatim>\<open>.\<close>. The hyphen is in
  the class of the two stripping expressions, so a leading or trailing hyphen stays.
\<close>

theorem convertToLabel_shape:
  "length (convertToLabel str) \<le> 62
   \<and> list_all inLabelClass (convertToLabel str)
   \<and> (convertToLabel str = []
        \<or> (inStartEndClass (hd (convertToLabel str)) \<and> inStartEndClass (last (convertToLabel str))
           \<and> hd (convertToLabel str) \<noteq> CHR ''_'' \<and> hd (convertToLabel str) \<noteq> CHR ''.''
           \<and> last (convertToLabel str) \<noteq> CHR ''_'' \<and> last (convertToLabel str) \<noteq> CHR ''.''))"
  using convertToLabel_labelShaped [of str] inStartEnd_not_sep
  unfolding labelShaped_def by blast

text \<open>
  The shape at a concrete content with leading blanks, an inner blank and trailing
  punctuation.
\<close>

theorem convertToLabel_shape_witness:
  "convertToLabel ''  hello world!! '' = ''hello_world''
   \<and> length (convertToLabel ''  hello world!! '') \<le> 62
   \<and> list_all inLabelClass (convertToLabel ''  hello world!! '')
   \<and> inStartEndClass (hd (convertToLabel ''  hello world!! ''))
   \<and> inStartEndClass (last (convertToLabel ''  hello world!! ''))"
proof -
  have e: "convertToLabel ''  hello world!! '' = ''hello_world''"
    by (simp add: convertToLabel_def replaceLeadingRun_def replaceTrailingRun_def
        inStartEndClass_def inLabelClass_def isAlnum_def)
  then have "convertToLabel ''  hello world!! '' \<noteq> []" by simp
  then show ?thesis
    using convertToLabel_shape [of "''  hello world!! ''"] e by blast
qed

text \<open>
  Claim C2 as it is written fails: the content \<^verbatim>\<open>-5\<close> followed by a newline is
  sanitized to \<^verbatim>\<open>-5\<close>, which starts with a punctuation character, and \<^verbatim>\<open>5-\<close>
  followed by a newline to \<^verbatim>\<open>5-\<close>, which ends with one.
\<close>

theorem convertToLabel_keeps_hyphen:
  "convertToLabel ''-5\<newline>'' = ''-5''
   \<and> hd (convertToLabel ''-5\<newline>'') = CHR ''-''
   \<and> convertToLabel ''5-\<newline>'' = ''5-''
   \<and> last (convertToLabel ''5-\<newline>'') = CHR ''-''"
  by (simp add: convertToLabel_def replaceLeadingRun_def replaceTrailingRun_def
        inStartEndClass_def inLabelClass_def isAlnum_def)

text \<open>
  Claim C4. The refined value sanitizer is idempotent: sanitizing a sanitized value
  changes nothing, for every input string.
\<close>

theorem convertToLabel_idempotent:
  "convertToLabel (convertToLabel x) = convertToLabel x"
  by (rule convertToLabel_fixes_labelShaped) (rule convertToLabel_labelShaped)

section \<open>The attribute name\<close>

text \<open>
  On a path that is not empty neither version panics; the results in closed form.
\<close>

lemma buildAttributeName_simple_eq:
  "attr \<noteq> [] \<Longrightarrow> buildAttributeName_simple attr =
     Some (let name = tl (dotted attr) in
           if length name > 64 then drop (length name - 64) name else name)"
  by (cases attr)
     (auto simp: buildAttributeName_simple_def sliceFrom_def dotted_def drop_Suc Let_def
      strings_Replace_def nat_diff_distrib' split: option.splits)

lemma buildAttributeName_refined_eq:
  assumes "attr \<noteq> []"
  shows "buildAttributeName_refined attr =
     Some (let name = tl (dotted attr) in
           if length name > 55
           then drop (length name - 55 + nat (strings_Index (drop (length name - 55) name) CHR ''.'' + 1)) name
           else name)"
proof -
  define name where "name = tl (dotted attr)"
  have s1: "sliceFrom (strings_Replace attr CHR ''/'' CHR ''.'') 1 = Some name"
    using assms by (cases attr) (simp_all add: sliceFrom_def name_def dotted_def strings_Replace_def drop_Suc)
  show ?thesis
  proof (cases "length name > 55")
    case False
    then show ?thesis using s1 by (simp add: buildAttributeName_refined_def name_def [symmetric])
  next
    case True
    define start where "start = length name - 55"
    define window where "window = drop start name"
    define idx where "idx = strings_Index window CHR ''.''"
    have st: "int (length name) - 55 = int start" using True by (simp add: start_def)
    have sl: "start \<le> length name" by (simp add: start_def)
    have s2: "sliceFrom name (int start) = Some window"
      using sl by (simp add: sliceFrom_def window_def)
    have lw: "length window = 55" using True by (simp add: window_def start_def)
    have rng: "- 1 \<le> idx" "idx < 55"
      using strings_Index_range [of window "CHR ''.''"] lw by (simp_all add: idx_def)
    have "start + 55 = length name" using True by (simp add: start_def)
    then have "int start + (idx + 1) \<le> int (length name)" using rng by linarith
    moreover have "nat (int start + (idx + 1)) = start + nat (idx + 1)"
      using rng by (simp add: nat_add_distrib)
    ultimately have s3: "sliceFrom name (int start + (idx + 1)) = Some (drop (start + nat (idx + 1)) name)"
      using rng by (simp add: sliceFrom_def)
    show ?thesis
      using True s1 s2 s3
      by (simp add: buildAttributeName_refined_def Let_def st name_def [symmetric]
          start_def [symmetric] window_def [symmetric] idx_def [symmetric])
  qed
qed

lemma buildAttributeName_simple_total: "attr \<noteq> [] \<Longrightarrow> \<exists>n. buildAttributeName_simple attr = Some n"
  by (simp add: buildAttributeName_simple_eq)

lemma buildAttributeName_refined_total: "attr \<noteq> [] \<Longrightarrow> \<exists>n. buildAttributeName_refined attr = Some n"
  by (simp add: buildAttributeName_refined_eq)

lemma refined_cut_no_leading_dot:
  assumes nad: "\<not> adjacentDots name" and long: "length name > 55"
  shows "\<not> startsWithDot
    (drop (length name - 55 + nat (strings_Index (drop (length name - 55) name) CHR ''.'' + 1)) name)"
proof -
  define start where "start = length name - 55"
  define window where "window = drop start name"
  define idx where "idx = strings_Index window CHR ''.''"
  define res where "res = drop (start + nat (idx + 1)) name"
  have lw: "length window = 55" using long by (simp add: window_def start_def)
  have sl: "start + 55 = length name" using long by (simp add: start_def)
  have rng: "- 1 \<le> idx" "idx < 55"
    using strings_Index_range [of window "CHR ''.''"] lw by (simp_all add: idx_def)
  have "\<not> startsWithDot res"
  proof (cases "idx = - 1")
    case True
    then have "CHR ''.'' \<notin> set window"
      using strings_Index_absent [of window "CHR ''.''"] by (simp add: idx_def)
    moreover have "res = window" using True by (simp add: res_def window_def)
    ultimately show ?thesis
      by (cases window) (auto simp: startsWithDot_def strings_HasPrefix_def)
  next
    case False
    then have nn: "0 \<le> idx" using rng by simp
    define i where "i = nat idx"
    have i: "i < 55" "idx = int i" using nn rng by (simp_all add: i_def)
    have "window ! i = CHR ''.''"
      using strings_Index_found [of window "CHR ''.''"] nn by (simp add: idx_def i_def)
    then have dot: "name ! (start + i) = CHR ''.''"
      using i sl by (simp add: window_def)
    have res: "res = drop (Suc (start + i)) name"
      using i by (simp add: res_def nat_add_distrib)
    show ?thesis
    proof (cases "Suc (start + i) < length name")
      case True
      then have "hd res = name ! Suc (start + i)" by (simp add: res hd_drop_conv_nth)
      moreover have "name ! Suc (start + i) \<noteq> CHR ''.''"
        using nad True dot by (rule adjacentDots_nth)
      ultimately show ?thesis
        by (cases res) (auto simp: startsWithDot_def strings_HasPrefix_def)
    next
      case False
      then have "res = []" by (simp add: res)
      then show ?thesis by (simp add: startsWithDot_def strings_HasPrefix_def)
    qed
  qed
  then show ?thesis by (simp add: res_def idx_def window_def start_def)
qed

lemma abs_nonempty: "filepath_IsAbs attr \<Longrightarrow> attr \<noteq> []"
  by (auto simp: filepath_IsAbs_def strings_HasPrefix_def)

lemma abs_dotted_tl_no_dot:
  assumes "filepath_IsAbs attr" "\<not> adjacentDots (dotted attr)"
  shows "\<not> startsWithDot (tl (dotted attr))"
proof -
  obtain cs where a: "attr = CHR ''/'' # cs"
    using assms(1) by (cases attr) (auto simp: filepath_IsAbs_def strings_HasPrefix_def)
  show ?thesis
    using assms(2) unfolding a
    by (cases cs) (auto simp: dotted_def strings_Replace_def startsWithDot_def strings_HasPrefix_def)
qed

text \<open>
  When the last 55 bytes of a long dotted name hold a dot, the refined name is what
  follows the first such dot.
\<close>

lemma buildAttributeName_refined_cut_after_dot:
  assumes ne: "attr \<noteq> []"
    and long: "length (tl (dotted attr)) > 55"
    and dot: "CHR ''.'' \<in> set (drop (length (tl (dotted attr)) - 55) (tl (dotted attr)))"
  shows "\<exists>pre r. buildAttributeName_refined attr = Some r
           \<and> tl (dotted attr) = pre @ CHR ''.'' # r
           \<and> length (tl (dotted attr)) - 55 \<le> length pre
           \<and> CHR ''.'' \<notin> set (drop (length (tl (dotted attr)) - 55) pre)"
proof -
  define name where "name = tl (dotted attr)"
  define start where "start = length name - 55"
  define window where "window = drop start name"
  define idx where "idx = strings_Index window CHR ''.''"
  have lw: "length window = 55" using long by (simp add: window_def start_def name_def)
  have sl: "start + 55 = length name" using long by (simp add: start_def name_def)
  have rng: "- 1 \<le> idx" "idx < 55"
    using strings_Index_range [of window "CHR ''.''"] lw by (simp_all add: idx_def)
  have "idx \<noteq> - 1"
    using dot strings_Index_absent [of window "CHR ''.''"]
    by (simp add: idx_def window_def start_def name_def)
  then have nn: "0 \<le> idx" using rng by simp
  define i where "i = nat idx"
  have i: "i < 55" "idx = int i" using nn rng by (simp_all add: i_def)
  have wi: "window ! i = CHR ''.''"
    using strings_Index_found [of window "CHR ''.''"] nn by (simp add: idx_def i_def)
  then have ni: "name ! (start + i) = CHR ''.''" using i sl by (simp add: window_def)
  have first: "CHR ''.'' \<notin> set (take i window)"
    using strings_Index_first [of window "CHR ''.''"] nn by (simp add: idx_def i_def)
  define pre where "pre = take (start + i) name"
  define r where "r = drop (Suc (start + i)) name"
  have lt: "start + i < length name" using i sl by simp
  have split: "name = pre @ CHR ''.'' # r"
    using id_take_nth_drop [OF lt] ni by (simp add: pre_def r_def)
  have res: "buildAttributeName_refined attr = Some r"
    using buildAttributeName_refined_eq [OF ne] long i
    by (simp add: Let_def name_def [symmetric] start_def [symmetric] window_def [symmetric]
        idx_def [symmetric] r_def nat_add_distrib)
  have lp: "start \<le> length pre" using lt by (simp add: pre_def)
  have "drop start pre = take i window"
    by (simp add: pre_def window_def drop_take)
  then have nd: "CHR ''.'' \<notin> set (drop start pre)" using first by simp
  show ?thesis
    using res split lp nd unfolding name_def [symmetric] start_def [symmetric] by blast
qed

text \<open>
  Claim C1 at a failing input. The path is cleaned and absolute, its dotted form has 89
  bytes, and its last segment has 64 bytes, so the last 55 bytes hold no dot.
  \<^verbatim>\<open>strings.Index\<close> returns \<open>-1\<close>, \<open>offset\<close> is \<open>0\<close>, and the name returned is
  the last 55 bytes: as long as the cap, and starting in the middle of the segment
  \<^verbatim>\<open>maximum_number_of_...\<close>, after \<^verbatim>\<open>maximum_n\<close>.
\<close>

theorem refined_cut_without_separator:
  "filepath_IsAbs ''/module/driver/parameters/maximum_number_of_outstanding_asynchronous_io_requests_per_queue''
   \<and> filepath_Clean ''/module/driver/parameters/maximum_number_of_outstanding_asynchronous_io_requests_per_queue''
     = ''/module/driver/parameters/maximum_number_of_outstanding_asynchronous_io_requests_per_queue''
   \<and> buildAttributeName_refined ''/module/driver/parameters/maximum_number_of_outstanding_asynchronous_io_requests_per_queue''
     = Some ''umber_of_outstanding_asynchronous_io_requests_per_queue''
   \<and> length ''umber_of_outstanding_asynchronous_io_requests_per_queue'' = 55
   \<and> dotted ''/module/driver/parameters/maximum_number_of_outstanding_asynchronous_io_requests_per_queue''
     = ''.module.driver.parameters.maximum_n'' @ ''umber_of_outstanding_asynchronous_io_requests_per_queue''"
proof -
  have a: "filepath_Clean ''/module/driver/parameters/maximum_number_of_outstanding_asynchronous_io_requests_per_queue''
     = ''/module/driver/parameters/maximum_number_of_outstanding_asynchronous_io_requests_per_queue''"
    by (simp add: filepath_Clean_def)
  have b: "buildAttributeName_refined ''/module/driver/parameters/maximum_number_of_outstanding_asynchronous_io_requests_per_queue''
     = Some ''umber_of_outstanding_asynchronous_io_requests_per_queue''"
    by (simp add: buildAttributeName_refined_def sliceFrom_def strings_Replace_def)
  have c: "dotted ''/module/driver/parameters/maximum_number_of_outstanding_asynchronous_io_requests_per_queue''
     = ''.module.driver.parameters.maximum_n'' @ ''umber_of_outstanding_asynchronous_io_requests_per_queue''"
    by (simp add: dotted_def strings_Replace_def)
  have d: "filepath_IsAbs ''/module/driver/parameters/maximum_number_of_outstanding_asynchronous_io_requests_per_queue''"
    by (simp add: filepath_IsAbs_def strings_HasPrefix_def)
  show ?thesis using a b c d by simp
qed

text \<open>
  Claim C3, as amended. For every absolute path, hence every cleaned absolute path,
  neither version panics, the simple name has at most 64 bytes and the refined name at
  most 55. When the dotted form of the path has no two dots next to each other, the
  refined name does not begin with a dot, and the simple name does not begin with a
  dot if the dotted form is short enough (at most 65 bytes) not to be cut.
\<close>

theorem buildAttributeName_cap_and_lead:
  assumes "filepath_IsAbs attr"
  shows "\<exists>s r. buildAttributeName_simple attr = Some s \<and> length s \<le> 64
           \<and> buildAttributeName_refined attr = Some r \<and> length r \<le> 55
           \<and> (\<not> adjacentDots (dotted attr) \<longrightarrow>
                 \<not> startsWithDot r \<and> (length (dotted attr) \<le> 65 \<longrightarrow> \<not> startsWithDot s))"
proof -
  have ne: "attr \<noteq> []" using assms by (rule abs_nonempty)
  define name where "name = tl (dotted attr)"
  define s where "s = (if length name > 64 then drop (length name - 64) name else name)"
  define r where "r = (if length name > 55
           then drop (length name - 55 + nat (strings_Index (drop (length name - 55) name) CHR ''.'' + 1)) name
           else name)"
  have S: "buildAttributeName_simple attr = Some s"
    using buildAttributeName_simple_eq [OF ne] by (simp add: s_def name_def Let_def)
  have R: "buildAttributeName_refined attr = Some r"
    using buildAttributeName_refined_eq [OF ne] by (simp add: r_def name_def Let_def)
  have ls: "length s \<le> 64" by (simp add: s_def)
  have lr: "length r \<le> 55" by (simp add: r_def)
  have lead: "\<not> startsWithDot r \<and> (length (dotted attr) \<le> 65 \<longrightarrow> \<not> startsWithDot s)"
    if nad: "\<not> adjacentDots (dotted attr)"
  proof -
    have n0: "\<not> startsWithDot name"
      using assms nad unfolding name_def by (rule abs_dotted_tl_no_dot)
    have nad': "\<not> adjacentDots name"
      using nad unfolding name_def by (rule adjacentDots_tl)
    have "\<not> startsWithDot r"
    proof (cases "length name > 55")
      case True
      then show ?thesis using refined_cut_no_leading_dot [OF nad' True] by (simp add: r_def)
    next
      case False
      then show ?thesis using n0 by (simp add: r_def)
    qed
    moreover have "\<not> startsWithDot s" if "length (dotted attr) \<le> 65"
    proof -
      have "length name \<le> 64" using that by (simp add: name_def)
      then show ?thesis using n0 by (simp add: s_def)
    qed
    ultimately show ?thesis by simp
  qed
  show ?thesis using S R ls lr lead by blast
qed

text \<open>
  The amended claim C3 at the path \<^verbatim>\<open>/class/power_supply/BAT0/capacity\<close>.
\<close>

theorem buildAttributeName_cap_and_lead_witness:
  "filepath_IsAbs ''/class/power_supply/BAT0/capacity''
   \<and> \<not> adjacentDots (dotted ''/class/power_supply/BAT0/capacity'')
   \<and> length (dotted ''/class/power_supply/BAT0/capacity'') \<le> 65
   \<and> (\<exists>s r. buildAttributeName_simple ''/class/power_supply/BAT0/capacity'' = Some s \<and> length s \<le> 64
         \<and> buildAttributeName_refined ''/class/power_supply/BAT0/capacity'' = Some r \<and> length r \<le> 55
         \<and> \<not> startsWithDot r \<and> \<not> startsWithDot s)"
proof -
  have h: "filepath_IsAbs ''/class/power_supply/BAT0/capacity''"
    by (simp add: filepath_IsAbs_def strings_HasPrefix_def)
  have d: "\<not> adjacentDots (dotted ''/class/power_supply/BAT0/capacity'')"
    by (simp add: dotted_def strings_Replace_def)
  have l: "length (dotted ''/class/power_supply/BAT0/capacity'') \<le> 65"
    by (simp add: dotted_def strings_Replace_def)
  show ?thesis
    using buildAttributeName_cap_and_lead [OF h] h d l by blast
qed

text \<open>
  Claim C3 as it is written fails. Under the simple policy a cut that falls on a
  separator leaves a name that begins with a dot: the dotted name of the first path has
  69 bytes and its byte 5 is a dot. Under both policies a first segment that begins
  with a dot gives a name that begins with a dot. Both paths are cleaned and absolute.
\<close>

theorem buildAttributeName_leading_dot:
  "filepath_Clean ''/class/net/eth10/device/driver/module/parameters/InterruptThrottleRate''
     = ''/class/net/eth10/device/driver/module/parameters/InterruptThrottleRate''
   \<and> buildAttributeName_simple ''/class/net/eth10/device/driver/module/parameters/InterruptThrottleRate''
     = Some ''.net.eth10.device.driver.module.parameters.InterruptThrottleRate''
   \<and> filepath_Clean ''/.config/x'' = ''/.config/x''
   \<and> buildAttributeName_simple ''/.config/x'' = Some ''.config.x''
   \<and> buildAttributeName_refined ''/.config/x'' = Some ''.config.x''"
proof -
  have a: "filepath_Clean ''/class/net/eth10/device/driver/module/parameters/InterruptThrottleRate''
     = ''/class/net/eth10/device/driver/module/parameters/InterruptThrottleRate''"
    by (simp add: filepath_Clean_def)
  have b: "buildAttributeName_simple ''/class/net/eth10/device/driver/module/parameters/InterruptThrottleRate''
     = Some ''.net.eth10.device.driver.module.parameters.InterruptThrottleRate''"
    by (simp add: buildAttributeName_simple_def sliceFrom_def strings_Replace_def)
  have c: "filepath_Clean ''/.config/x'' = ''/.config/x''"
    by (simp add: filepath_Clean_def)
  have d: "buildAttributeName_simple ''/.config/x'' = Some ''.config.x''"
    by (simp add: buildAttributeName_simple_def sliceFrom_def strings_Replace_def)
  have e: "buildAttributeName_refined ''/.config/x'' = Some ''.config.x''"
    by (simp add: buildAttributeName_refined_def sliceFrom_def strings_Replace_def)
  show ?thesis using a b c d e by simp
qed

section \<open>Cleaned paths\<close>

lemma Clean_nonempty: "filepath_Clean path \<noteq> []"
  by (simp add: filepath_Clean_def Let_def)

text \<open>
  Cleaning an absolute path gives an absolute path.
\<close>

lemma backtrack_lower: "dotdot \<le> w \<Longrightarrow> dotdot \<le> backtrack out dotdot w"
  by (induction w) auto

lemma cleanLoop_rooted:
  "out \<noteq> [] \<Longrightarrow> hd out = CHR ''/'' \<Longrightarrow>
     cleanLoop True path out (Suc 0) \<noteq> [] \<and> hd (cleanLoop True path out (Suc 0)) = CHR ''/''"
proof (induction True path out "Suc 0" rule: cleanLoop.induct)
  case (1 out)
  then show ?case by simp
next
  case (2 c cs out)
  have bt: "take (backtrack out (Suc 0) (length out - 1)) out \<noteq> []
        \<and> hd (take (backtrack out (Suc 0) (length out - 1)) out) = CHR ''/''"
    if "Suc 0 < length out"
  proof -
    have "Suc 0 \<le> backtrack out (Suc 0) (length out - 1)"
      using that by (intro backtrack_lower) simp
    then show ?thesis using "2.prems" by (cases out) (auto simp: take_Suc_conv_app_nth hd_take)
  qed
  show ?case
    using "2.hyps" "2.prems" bt
    by (simp add: Let_def hd_append)
qed

lemma Clean_abs: "filepath_IsAbs path \<Longrightarrow> filepath_IsAbs (filepath_Clean path)"
proof -
  assume "filepath_IsAbs path"
  then obtain cs where p: "path = CHR ''/'' # cs"
    by (cases path) (auto simp: filepath_IsAbs_def strings_HasPrefix_def)
  have "cleanLoop True cs ''/'' (Suc 0) \<noteq> [] \<and> hd (cleanLoop True cs ''/'' (Suc 0)) = CHR ''/''"
    by (rule cleanLoop_rooted) simp_all
  then show ?thesis
    unfolding p
    by (cases "cleanLoop True cs ''/'' (Suc 0)")
       (auto simp: filepath_Clean_def filepath_IsAbs_def strings_HasPrefix_def)
qed

lemma Clean_double_slash: "filepath_Clean (CHR ''/'' # CHR ''/'' # attr) = filepath_Clean (CHR ''/'' # attr)"
  by (simp add: filepath_Clean_def)

lemma Join_root: "filepath_Join [''/'', attr] = filepath_Clean (CHR ''/'' # attr)"
  by (simp add: Clean_double_slash)

text \<open>
  Cleaning an absolute path twice is cleaning it once. The loop of \<open>filepath_Clean\<close>
  keeps its output a rendered list of valid segments, and on the rendered form of such
  a list it copies every segment.
\<close>

lemma strings_Join_snoc:
  "strings_Join (segs @ [s]) sep = (if segs = [] then s else strings_Join segs sep @ sep @ s)"
  by (induction segs sep rule: strings_Join.induct) auto

lemma render_snoc:
  "render (segs @ [s]) = (if segs = [] then CHR ''/'' # s else render segs @ CHR ''/'' # s)"
  by (simp add: render_def strings_Join_snoc)

lemma strings_Join_nonempty:
  "segs \<noteq> [] \<Longrightarrow> list_all validSegment segs \<Longrightarrow> strings_Join segs ''/'' \<noteq> []"
  by (induction segs "''/''" rule: strings_Join.induct) (auto simp: validSegment_def)

lemma render_length_one: "list_all validSegment segs \<Longrightarrow> length (render segs) = 1 \<longleftrightarrow> segs = []"
  using strings_Join_nonempty [of segs] by (cases "segs = []") (auto simp: render_def)

lemma backtrack_stop:
  "dotdot \<le> n \<Longrightarrow> n \<le> w \<Longrightarrow> (\<forall>i. n < i \<and> i \<le> w \<longrightarrow> out ! i \<noteq> CHR ''/'')
     \<Longrightarrow> out ! n = CHR ''/'' \<or> n = dotdot \<Longrightarrow> backtrack out dotdot w = n"
proof (induction w)
  case 0
  then show ?case by simp
next
  case (Suc w)
  show ?case
  proof (cases "n = Suc w")
    case True
    then show ?thesis using Suc.prems by auto
  next
    case False
    then have le: "n \<le> w" using Suc.prems by simp
    have "out ! Suc w \<noteq> CHR ''/''" using Suc.prems False by simp
    moreover have "Suc w > dotdot" using Suc.prems False by simp
    ultimately have "backtrack out dotdot (Suc w) = backtrack out dotdot w" by simp
    then show ?thesis using Suc.IH [OF Suc.prems(1) le] Suc.prems by simp
  qed
qed

lemma backtrack_render:
  assumes "list_all validSegment segs" "validSegment s"
  shows "take (backtrack (render (segs @ [s])) (Suc 0) (length (render (segs @ [s])) - 1))
           (render (segs @ [s])) = render segs"
proof (cases "segs = []")
  case True
  have ns: "CHR ''/'' \<notin> set s" "s \<noteq> []" using assms(2) by (simp_all add: validSegment_def)
  have "backtrack (CHR ''/'' # s) (Suc 0) (length s) = Suc 0"
  proof (rule backtrack_stop)
    show "Suc 0 \<le> length s" using ns by (cases s) auto
    show "\<forall>i. Suc 0 < i \<and> i \<le> length s \<longrightarrow> (CHR ''/'' # s) ! i \<noteq> CHR ''/''"
      using ns by (auto simp: nth_Cons split: nat.splits) (metis Suc_le_lessD nth_mem)
  qed simp_all
  then show ?thesis using True by (simp add: render_snoc render_def)
next
  case False
  define pre where "pre = render segs"
  have ns: "CHR ''/'' \<notin> set s" "s \<noteq> []" using assms(2) by (simp_all add: validSegment_def)
  have lp: "Suc 0 \<le> length pre" by (simp add: pre_def render_def)
  have out: "render (segs @ [s]) = pre @ CHR ''/'' # s"
    using False by (simp add: render_snoc pre_def)
  have "backtrack (pre @ CHR ''/'' # s) (Suc 0) (length pre + length s) = length pre"
  proof (rule backtrack_stop)
    show "Suc 0 \<le> length pre" by (rule lp)
    show "length pre \<le> length pre + length s" by simp
    show "\<forall>i. length pre < i \<and> i \<le> length pre + length s \<longrightarrow> (pre @ CHR ''/'' # s) ! i \<noteq> CHR ''/''"
    proof (intro allI impI)
      fix i assume i: "length pre < i \<and> i \<le> length pre + length s"
      then obtain j where j: "i = length pre + Suc j" "j < length s"
        by (metis Suc_le_lessD add_Suc_right less_imp_Suc_add nat_add_left_cancel_less)
      then have "(pre @ CHR ''/'' # s) ! i = s ! j" by (simp add: nth_append)
      then show "(pre @ CHR ''/'' # s) ! i \<noteq> CHR ''/''" using ns j by (metis nth_mem)
    qed
    show "(pre @ CHR ''/'' # s) ! length pre = CHR ''/'' \<or> length pre = Suc 0" by simp
  qed
  then show ?thesis unfolding out by (simp add: pre_def)
qed

lemma render_nonempty: "render segs \<noteq> []" "hd (render segs) = CHR ''/''"
  by (simp_all add: render_def)

lemma element_valid:
  assumes "c \<noteq> CHR ''/''"
    and "\<not> (c = CHR ''.'' \<and> (cs = [] \<or> hd cs = CHR ''/''))"
    and "\<not> (c = CHR ''.'' \<and> hd cs = CHR ''.'' \<and> (tl cs = [] \<or> hd (tl cs) = CHR ''/''))"
  shows "validSegment (c # takeWhile (\<lambda>x. x \<noteq> CHR ''/'') cs)"
proof -
  let ?t = "takeWhile (\<lambda>x. x \<noteq> CHR ''/'') cs"
  have nos: "CHR ''/'' \<notin> set (c # ?t)"
    using assms(1) by (auto dest: set_takeWhileD)
  have nd: "c # ?t \<noteq> ''.''"
  proof
    assume "c # ?t = ''.''"
    then have c: "c = CHR ''.''" and t: "?t = []" by simp_all
    from t have "cs = [] \<or> hd cs = CHR ''/''" by (cases cs) (auto split: if_splits)
    then show False using assms(2) c by simp
  qed
  have ndd: "c # ?t \<noteq> ''..''"
  proof
    assume "c # ?t = ''..''"
    then have c: "c = CHR ''.''" and t: "?t = ''.''" by simp_all
    from t obtain cs' where cs: "cs = CHR ''.'' # cs'" and t': "takeWhile (\<lambda>x. x \<noteq> CHR ''/'') cs' = []"
      by (cases cs) (auto split: if_splits)
    from t' have "cs' = [] \<or> hd cs' = CHR ''/''" by (cases cs') (auto split: if_splits)
    then show False using assms(3) c cs by simp
  qed
  show ?thesis using nos nd ndd by (simp add: validSegment_def)
qed

lemma cleanLoop_rendered:
  "out = render segs \<Longrightarrow> list_all validSegment segs \<Longrightarrow>
     \<exists>segs'. list_all validSegment segs' \<and> cleanLoop True path out (Suc 0) = render segs'"
proof (induction True path out "Suc 0" arbitrary: segs rule: cleanLoop.induct)
  case (1 out)
  then show ?case by auto
next
  case (2 c cs out)
  note out = "2.prems"(1) and val = "2.prems"(2)
  show ?case
  proof (cases "c = CHR ''/''")
    case True
    then show ?thesis using "2.hyps"(1) [OF True out val] by simp
  next
    case nsl: False
    show ?thesis
    proof (cases "c = CHR ''.'' \<and> (cs = [] \<or> hd cs = CHR ''/'')")
      case True
      then show ?thesis using "2.hyps"(2) [OF nsl True out val] nsl by simp
    next
      case nd: False
      show ?thesis
      proof (cases "c = CHR ''.'' \<and> hd cs = CHR ''.'' \<and> (tl cs = [] \<or> hd (tl cs) = CHR ''/'')")
        case dd: True
        show ?thesis
        proof (cases "Suc 0 < length out")
          case long: True
          then have "segs \<noteq> []" using out val render_length_one [of segs] by auto
          then obtain ss s where segs: "segs = ss @ [s]" by (metis rev_exhaust)
          have vs: "list_all validSegment ss" "validSegment s" using val segs by simp_all
          have bt: "take (backtrack out (Suc 0) (length out - 1)) out = render ss"
            unfolding out segs using vs by (rule backtrack_render)
          obtain segs' where "list_all validSegment segs'"
            "cleanLoop True (tl cs) (take (backtrack out (Suc 0) (length out - 1)) out) (Suc 0) = render segs'"
            using "2.hyps"(3) [OF nsl nd dd long bt vs(1)] by blast
          then show ?thesis using nsl nd dd long by auto
        next
          case short: False
          have "\<exists>segs'. list_all validSegment segs' \<and> cleanLoop True (tl cs) out (Suc 0) = render segs'"
            by (rule "2.hyps"(5) [OF nsl nd dd short _ out val]) simp
          then obtain segs' where "list_all validSegment segs'"
            "cleanLoop True (tl cs) out (Suc 0) = render segs'"
            by blast
          then show ?thesis using nsl nd dd short by auto
        qed
      next
        case ndd: False
        define el where "el = c # takeWhile (\<lambda>x. x \<noteq> CHR ''/'') cs"
        define out' where "out' = (if length out \<noteq> 1 then out @ ''/'' else out)"
        have vel: "validSegment el" unfolding el_def using nsl nd ndd by (rule element_valid)
        have r: "out' @ el = render (segs @ [el])"
          using out val render_length_one [of segs]
          by (auto simp: out'_def render_def strings_Join_snoc)
        have v': "list_all validSegment (segs @ [el])" using val vel by simp
        have o': "(if True \<and> length out \<noteq> 1 \<or> \<not> True \<and> length out \<noteq> 0 then out @ ''/'' else out) = out'"
          by (simp add: out'_def)
        have "\<exists>segs'. list_all validSegment segs'
            \<and> cleanLoop True (dropWhile (\<lambda>x. x \<noteq> CHR ''/'') cs)
                  (out' @ c # takeWhile (\<lambda>x. x \<noteq> CHR ''/'') cs) (Suc 0) = render segs'"
          by (rule "2.hyps"(6) [OF nsl nd ndd o' [symmetric] r [unfolded el_def] v' [unfolded el_def]])
        then obtain segs' where "list_all validSegment segs'"
          "cleanLoop True (dropWhile (\<lambda>x. x \<noteq> CHR ''/'') cs) (out' @ el) (Suc 0) = render segs'"
          by (auto simp: el_def)
        then show ?thesis using nsl nd ndd by (auto simp: Let_def out'_def el_def)
      qed
    qed
  qed
qed

lemma takeWhile_segment:
  assumes "CHR ''/'' \<notin> set xs" "tail = [] \<or> hd tail = CHR ''/''"
  shows "takeWhile (\<lambda>x. x \<noteq> CHR ''/'') (xs @ tail) = xs"
    and "dropWhile (\<lambda>x. x \<noteq> CHR ''/'') (xs @ tail) = tail"
proof -
  have a: "\<forall>x\<in>set xs. x \<noteq> CHR ''/''" using assms(1) by auto
  have t: "takeWhile (\<lambda>x. x \<noteq> CHR ''/'') tail = []"
    using assms(2) by (cases tail) auto
  have d: "dropWhile (\<lambda>x. x \<noteq> CHR ''/'') tail = tail"
    using assms(2) by (cases tail) auto
  show "takeWhile (\<lambda>x. x \<noteq> CHR ''/'') (xs @ tail) = xs"
    using a t by (simp add: takeWhile_append2)
  show "dropWhile (\<lambda>x. x \<noteq> CHR ''/'') (xs @ tail) = tail"
    using a d by (simp add: dropWhile_append2)
qed

lemma cleanLoop_segment:
  assumes vs: "validSegment s" and vd: "list_all validSegment done"
    and tail: "tail = [] \<or> hd tail = CHR ''/''"
  shows "cleanLoop True (s @ tail) (render done) (Suc 0)
           = cleanLoop True tail (render (done @ [s])) (Suc 0)"
proof -
  obtain c cs' where s: "s = c # cs'" using vs by (cases s) (auto simp: validSegment_def)
  have nsl: "c \<noteq> CHR ''/''" and ncs: "CHR ''/'' \<notin> set cs'"
    using vs s by (auto simp: validSegment_def)
  define cs where "cs = cs' @ tail"
  have nd: "\<not> (c = CHR ''.'' \<and> (cs = [] \<or> hd cs = CHR ''/''))"
  proof
    assume a: "c = CHR ''.'' \<and> (cs = [] \<or> hd cs = CHR ''/'')"
    then have "cs' \<noteq> []" using vs s by (auto simp: validSegment_def)
    then have "cs \<noteq> []" "hd cs = hd cs'" "hd cs' \<in> set cs'" by (simp_all add: cs_def)
    then show False using a ncs by auto
  qed
  have ndd: "\<not> (c = CHR ''.'' \<and> hd cs = CHR ''.'' \<and> (tl cs = [] \<or> hd (tl cs) = CHR ''/''))"
  proof
    assume a: "c = CHR ''.'' \<and> hd cs = CHR ''.'' \<and> (tl cs = [] \<or> hd (tl cs) = CHR ''/'')"
    then have ne: "cs' \<noteq> []" using vs s by (auto simp: validSegment_def)
    then obtain d cs'' where c': "cs' = d # cs''" by (cases cs') auto
    then have d: "d = CHR ''.''" using a by (simp add: cs_def)
    then have ne2: "cs'' \<noteq> []" using vs s c' a by (auto simp: validSegment_def)
    then have "tl cs \<noteq> []" "hd (tl cs) = hd cs''" "hd cs'' \<in> set cs'"
      using c' by (simp_all add: cs_def)
    then show False using a ncs by auto
  qed
  have tw: "takeWhile (\<lambda>x. x \<noteq> CHR ''/'') cs = cs'"
    and dw: "dropWhile (\<lambda>x. x \<noteq> CHR ''/'') cs = tail"
    unfolding cs_def using ncs tail by (rule takeWhile_segment)+
  have r: "(if length (render done) \<noteq> 1 then render done @ ''/'' else render done) @ c # cs'
      = render (done @ [s])"
    using vd render_length_one [of "done"] by (auto simp: render_def strings_Join_snoc s)
  have "cleanLoop True (c # cs) (render done) (Suc 0)
      = (let out' = (if (True \<and> length (render done) \<noteq> 1) \<or> (\<not> True \<and> length (render done) \<noteq> 0)
                     then render done @ ''/'' else render done)
         in cleanLoop True (dropWhile (\<lambda>x. x \<noteq> CHR ''/'') cs)
              (out' @ c # takeWhile (\<lambda>x. x \<noteq> CHR ''/'') cs) (Suc 0))"
    using nsl nd ndd by (subst cleanLoop.simps(2)) (simp only: if_False)
  also have "\<dots> = cleanLoop True tail (render (done @ [s])) (Suc 0)"
    using r by (simp add: Let_def tw dw)
  finally show ?thesis by (simp add: s cs_def)
qed

lemma cleanLoop_joined:
  "list_all validSegment segs \<Longrightarrow> list_all validSegment done \<Longrightarrow>
     cleanLoop True (strings_Join segs ''/'') (render done) (Suc 0) = render (done @ segs)"
proof (induction segs "''/''" arbitrary: "done" rule: strings_Join.induct)
  case 1
  then show ?case by simp
next
  case (2 e)
  then show ?case using cleanLoop_segment [of e "done" "[]"] by simp
next
  case (3 e v va)
  have v1: "validSegment e" and v2: "list_all validSegment (v # va)" using "3.prems" by simp_all
  have d: "list_all validSegment (done @ [e])" using "3.prems" by simp
  have "cleanLoop True (e @ CHR ''/'' # strings_Join (v # va) ''/'') (render done) (Suc 0)
      = cleanLoop True (CHR ''/'' # strings_Join (v # va) ''/'') (render (done @ [e])) (Suc 0)"
    using cleanLoop_segment [OF v1 "3.prems"(2), of "CHR ''/'' # strings_Join (v # va) ''/''"] by simp
  also have "\<dots> = cleanLoop True (strings_Join (v # va) ''/'') (render (done @ [e])) (Suc 0)"
    by simp
  also have "\<dots> = render ((done @ [e]) @ v # va)"
    using "3.hyps" [OF v2 d] .
  finally show ?case by simp
qed

lemma Clean_render: "list_all validSegment segs \<Longrightarrow> filepath_Clean (render segs) = render segs"
  using cleanLoop_joined [of segs "[]"]
  by (simp add: filepath_Clean_def) (simp add: render_def)

lemma Clean_idempotent_abs:
  assumes "filepath_IsAbs path"
  shows "filepath_Clean (filepath_Clean path) = filepath_Clean path"
proof -
  obtain cs where p: "path = CHR ''/'' # cs"
    using assms by (cases path) (auto simp: filepath_IsAbs_def strings_HasPrefix_def)
  have "list_all validSegment []" by simp
  moreover have "''/'' = render []" by (simp add: render_def)
  ultimately obtain segs where v: "list_all validSegment segs"
    and c: "cleanLoop True cs ''/'' (Suc 0) = render segs"
    using cleanLoop_rendered [of "''/''" "[]" cs] by blast
  have "filepath_Clean path = render segs"
    using c by (simp add: p filepath_Clean_def render_def)
  then show ?thesis using Clean_render [OF v] by simp
qed

lemma logicalPath_simple_nonempty: "logicalPath_simple a \<noteq> []"
  unfolding logicalPath_simple_def by (rule Clean_nonempty)

lemma logicalPath_refined_nonempty: "logicalPath_refined a \<noteq> []"
  unfolding logicalPath_refined_def Let_def by (rule Clean_nonempty)

lemma logicalPath_simple_relative:
  assumes "\<not> filepath_IsAbs attr"
  shows "logicalPath_simple attr = filepath_Clean (''/'' @ attr)"
proof -
  have a: "filepath_IsAbs (''/'' @ attr)" by (simp add: filepath_IsAbs_def strings_HasPrefix_def)
  have "logicalPath_simple attr = filepath_Clean (filepath_Clean (''/'' @ attr))"
    using assms Join_root [of attr] by (simp add: logicalPath_simple_def)
  then show ?thesis using Clean_idempotent_abs [OF a] by simp
qed

lemma logicalPath_refined_relative:
  assumes "\<not> filepath_IsAbs attr"
  shows "logicalPath_refined attr = filepath_Clean (''/'' @ attr)"
proof -
  have a: "filepath_IsAbs (''/'' @ attr)" by (simp add: filepath_IsAbs_def strings_HasPrefix_def)
  have ns: "\<not> strings_HasPrefix attr ''/sys''"
    using assms by (cases attr) (auto simp: filepath_IsAbs_def strings_HasPrefix_def)
  have "logicalPath_refined attr = filepath_Clean (filepath_Clean (''/'' @ attr))"
    using assms ns Join_root [of attr] by (simp add: logicalPath_refined_def)
  then show ?thesis using Clean_idempotent_abs [OF a] by simp
qed

lemma logicalPath_refined_class_net: "logicalPath_refined ''class/net'' = ''/class/net''"
  by (simp add: logicalPath_refined_def strings_HasPrefix_def filepath_IsAbs_def filepath_Clean_def)

lemma logicalPath_simple_class_net: "logicalPath_simple ''class/net'' = ''/class/net''"
  by (simp add: logicalPath_simple_def strings_HasPrefix_def filepath_IsAbs_def filepath_Clean_def)

lemma buildAttributeName_refined_class_net: "buildAttributeName_refined ''/class/net'' = Some ''class.net''"
  by (simp add: buildAttributeName_refined_def sliceFrom_def strings_Replace_def)

section \<open>The discovery loop\<close>

lemma discoverEntry_part001_total: "\<exists>m'. discoverEntry_part001 resolve fs a m = Some m'"
proof -
  obtain n where "buildAttributeName_refined (logicalPath_refined a) = Some n"
    using buildAttributeName_refined_total [OF logicalPath_refined_nonempty] by blast
  then show ?thesis
    by (simp add: discoverEntry_part001_def Let_def split: sum.splits)
qed

lemma discoverEntry_sysfs_total: "\<exists>m'. discoverEntry_sysfs trim resolve fs a m = Some m'"
proof -
  obtain n where "buildAttributeName_simple (logicalPath_simple a) = Some n"
    using buildAttributeName_simple_total [OF logicalPath_simple_nonempty] by blast
  then show ?thesis
    by (simp add: discoverEntry_sysfs_def Let_def split: sum.splits)
qed

lemma discoverEntry_part000_total: "\<exists>m'. discoverEntry_part000 resolve fs a m = Some m'"
proof -
  obtain n where "buildAttributeName_simple (logicalPath_simple a) = Some n"
    using buildAttributeName_simple_total [OF logicalPath_simple_nonempty] by blast
  then show ?thesis
    by (simp add: discoverEntry_part000_def Let_def split: sum.splits)
qed

text \<open>
  The loop never panics when its body never does; an entry whose iteration leaves the
  map unchanged can be removed from the whitelist; the last entry decides its key.
\<close>

lemma rangeWhitelist_total:
  assumes "\<And>a m. \<exists>m'. body a m = Some m'"
  shows "\<exists>m'. rangeWhitelist body ws m = Some m'"
proof (induction ws arbitrary: m)
  case Nil
  then show ?case by simp
next
  case (Cons a ws)
  obtain m1 where "body a m = Some m1" using assms by blast
  then show ?case using Cons.IH [of m1] by simp
qed

lemma rangeWhitelist_append:
  "rangeWhitelist body (xs @ ys) m =
     (case rangeWhitelist body xs m of None \<Rightarrow> None | Some m' \<Rightarrow> rangeWhitelist body ys m')"
  by (induction xs arbitrary: m) (auto split: option.splits)

lemma rangeWhitelist_skip:
  assumes "\<And>m. body a m = Some m"
  shows "rangeWhitelist body (xs @ a # ys) m0 = rangeWhitelist body (xs @ ys) m0"
  by (simp add: rangeWhitelist_append assms split: option.splits)

lemma rangeWhitelist_last:
  assumes tot: "\<And>b m. \<exists>m'. body b m = Some m'"
    and step: "\<And>m. body a m = Some (m(k \<mapsto> v))"
  shows "\<exists>m'. rangeWhitelist body (xs @ [a]) m0 = Some m' \<and> m' k = Some v"
proof -
  obtain m1 where "rangeWhitelist body xs m0 = Some m1"
    using rangeWhitelist_total [of body xs m0] tot by blast
  then show ?thesis by (simp add: rangeWhitelist_append step)
qed

lemma readSingleParameter_part001_dir:
  "fs p = Directory \<Longrightarrow> readSingleParameter_part001 fs p = Inr []"
  by (simp add: readSingleParameter_part001_def os_Stat_def)

lemma readSingleParameter_sysfs_dir:
  "fs p = Directory \<Longrightarrow> readSingleParameter_sysfs trim fs p = Inl (FailedToRead p EISDIR)"
  by (simp add: readSingleParameter_sysfs_def os_Open_def file_Read_def)

lemma readSingleParameter_part001_missing:
  "fs p = NoNode e \<Longrightarrow> readSingleParameter_part001 fs p = Inl (FailedToRead p e)"
  by (simp add: readSingleParameter_part001_def os_Stat_def)

lemma readSingleParameter_sysfs_missing:
  "fs p = NoNode e \<Longrightarrow> readSingleParameter_sysfs trim fs p = Inl (FailedToOpen p e)"
  by (simp add: readSingleParameter_sysfs_def os_Open_def)

lemma readSingleParameter_part001_denied:
  "fs p = Regular io \<Longrightarrow> io = OpenError e \<or> io = ReadError e \<Longrightarrow> os_IsPermission e \<Longrightarrow>
     readSingleParameter_part001 fs p = Inr []"
  by (auto simp: readSingleParameter_part001_def os_Stat_def os_ReadFile_def os_Open_def)

lemma Discover_part001_skip:
  assumes "\<And>m. discoverEntry_part001 resolve fs a m = Some m"
  shows "\<exists>s1 s2. Discover_part001 resolve fs (s\<lparr>SysfsWhitelist := xs @ a # ys\<rparr>) = Some (s1, None)
           \<and> Discover_part001 resolve fs (s\<lparr>SysfsWhitelist := xs @ ys\<rparr>) = Some (s2, None)
           \<and> GetFeatures s1 = GetFeatures s2"
proof -
  obtain mf where mf: "rangeWhitelist (discoverEntry_part001 resolve fs) (xs @ ys) Map.empty = Some mf"
    using rangeWhitelist_total [of "discoverEntry_part001 resolve fs" "xs @ ys" Map.empty]
      discoverEntry_part001_total by blast
  moreover have "rangeWhitelist (discoverEntry_part001 resolve fs) (xs @ a # ys) Map.empty = Some mf"
    using mf rangeWhitelist_skip [of "discoverEntry_part001 resolve fs" a xs ys Map.empty] assms
    by simp
  ultimately show ?thesis
    by (simp add: Discover_part001_def GetFeatures_def)
qed

lemma Discover_sysfs_skip:
  assumes "\<And>m. discoverEntry_sysfs trimSpace resolve fs a m = Some m"
  shows "\<exists>s1 s2. Discover_sysfs trimSpace resolve fs (s\<lparr>SysfsWhitelist := xs @ a # ys\<rparr>) = Some (s1, None)
           \<and> Discover_sysfs trimSpace resolve fs (s\<lparr>SysfsWhitelist := xs @ ys\<rparr>) = Some (s2, None)
           \<and> GetFeatures s1 = GetFeatures s2"
proof -
  obtain mf where mf: "rangeWhitelist (discoverEntry_sysfs trimSpace resolve fs) (xs @ ys) Map.empty = Some mf"
    using rangeWhitelist_total [of "discoverEntry_sysfs trimSpace resolve fs" "xs @ ys" Map.empty]
      discoverEntry_sysfs_total by blast
  moreover have "rangeWhitelist (discoverEntry_sysfs trimSpace resolve fs) (xs @ a # ys) Map.empty = Some mf"
    using mf rangeWhitelist_skip [of "discoverEntry_sysfs trimSpace resolve fs" a xs ys Map.empty] assms
    by simp
  ultimately show ?thesis
    by (simp add: Discover_sysfs_def GetFeatures_def)
qed

lemma Discover_part001_last:
  assumes "\<And>m. discoverEntry_part001 resolve fs a m = Some (m(name \<mapsto> v))"
  shows "\<exists>s'. Discover_part001 resolve fs (s\<lparr>SysfsWhitelist := xs @ [a]\<rparr>) = Some (s', None)
               \<and> GetFeatures s' name = Some v"
proof -
  obtain mf where mf: "rangeWhitelist (discoverEntry_part001 resolve fs) (xs @ [a]) Map.empty = Some mf"
      and k: "mf name = Some v"
    using rangeWhitelist_last [of "discoverEntry_part001 resolve fs" a name v xs Map.empty]
      discoverEntry_part001_total assms by blast
  then show ?thesis by (simp add: Discover_part001_def GetFeatures_def)
qed

text \<open>
  Claim C6. When a whitelist entry resolves to a directory, \<^verbatim>\<open>part_001\<close> records
  its name with the empty value (shown for one iteration, and for a whole run of
  \<open>Discover\<close> in which the entry comes last), while \<^verbatim>\<open>sysfs.go\<close> skips it: the
  iteration leaves the map unchanged, and the run gives the features it gives without
  the entry. Both runs return no error.
\<close>

theorem directory_entry_policy:
  "(fs (resolve (logicalPath_refined a)) = Directory \<longrightarrow>
      (\<exists>name. buildAttributeName_refined (logicalPath_refined a) = Some name
         \<and> discoverEntry_part001 resolve fs a m = Some (m(name \<mapsto> []))
         \<and> (\<exists>s'. Discover_part001 resolve fs (s\<lparr>SysfsWhitelist := xs @ [a]\<rparr>) = Some (s', None)
               \<and> GetFeatures s' name = Some [])))
   \<and> (fs' (resolve' (logicalPath_simple a)) = Directory \<longrightarrow>
        discoverEntry_sysfs trimSpace resolve' fs' a m = Some m
        \<and> (\<exists>s1 s2.
              Discover_sysfs trimSpace resolve' fs' (s\<lparr>SysfsWhitelist := xs @ a # ys\<rparr>) = Some (s1, None)
            \<and> Discover_sysfs trimSpace resolve' fs' (s\<lparr>SysfsWhitelist := xs @ ys\<rparr>) = Some (s2, None)
            \<and> GetFeatures s1 = GetFeatures s2))"
proof (intro conjI impI)
  assume d: "fs (resolve (logicalPath_refined a)) = Directory"
  obtain name where n: "buildAttributeName_refined (logicalPath_refined a) = Some name"
    using buildAttributeName_refined_total [OF logicalPath_refined_nonempty] by blast
  have step: "discoverEntry_part001 resolve fs a m' = Some (m'(name \<mapsto> []))" for m'
    using d n by (simp add: discoverEntry_part001_def Let_def readSingleParameter_part001_dir)
  show "\<exists>name. buildAttributeName_refined (logicalPath_refined a) = Some name
         \<and> discoverEntry_part001 resolve fs a m = Some (m(name \<mapsto> []))
         \<and> (\<exists>s'. Discover_part001 resolve fs (s\<lparr>SysfsWhitelist := xs @ [a]\<rparr>) = Some (s', None)
               \<and> GetFeatures s' name = Some [])"
    using n step Discover_part001_last [where s = s and xs = xs, OF step] by blast
next
  assume d: "fs' (resolve' (logicalPath_simple a)) = Directory"
  have step: "discoverEntry_sysfs trimSpace resolve' fs' a m' = Some m'" for m'
    using d by (simp add: discoverEntry_sysfs_def Let_def readSingleParameter_sysfs_dir)
  show "discoverEntry_sysfs trimSpace resolve' fs' a m = Some m" by (rule step)
  show "\<exists>s1 s2.
              Discover_sysfs trimSpace resolve' fs' (s\<lparr>SysfsWhitelist := xs @ a # ys\<rparr>) = Some (s1, None)
            \<and> Discover_sysfs trimSpace resolve' fs' (s\<lparr>SysfsWhitelist := xs @ ys\<rparr>) = Some (s2, None)
            \<and> GetFeatures s1 = GetFeatures s2"
    by (rule Discover_sysfs_skip) (rule step)
qed

text \<open>
  Claim C6 at the entry \<^verbatim>\<open>class/net\<close>, a directory under \<^verbatim>\<open>/sys\<close>.
\<close>

theorem directory_entry_policy_witness:
  "(\<lambda>p. if p = ''/sys/class/net'' then Directory else NoNode ENOENT)
       ((\<lambda>p. ''/sys'' @ p) (logicalPath_refined ''class/net'')) = Directory
   \<and> (\<lambda>p. if p = ''/sys/class/net'' then Directory else NoNode ENOENT)
       ((\<lambda>p. ''/sys'' @ p) (logicalPath_simple ''class/net'')) = Directory
   \<and> discoverEntry_part001 (\<lambda>p. ''/sys'' @ p)
        (\<lambda>p. if p = ''/sys/class/net'' then Directory else NoNode ENOENT)
        ''class/net'' Map.empty = Some [''class.net'' \<mapsto> []]
   \<and> discoverEntry_sysfs (\<lambda>b. b) (\<lambda>p. ''/sys'' @ p)
        (\<lambda>p. if p = ''/sys/class/net'' then Directory else NoNode ENOENT)
        ''class/net'' Map.empty = Some Map.empty"
proof -
  let ?fs = "\<lambda>p. if p = ''/sys/class/net'' then Directory else NoNode ENOENT"
  let ?R = "\<lambda>p::string. ''/sys'' @ p"
  have h1: "?fs (?R (logicalPath_refined ''class/net'')) = Directory"
    by (simp add: logicalPath_refined_class_net)
  have h2: "?fs (?R (logicalPath_simple ''class/net'')) = Directory"
    by (simp add: logicalPath_simple_class_net)
  have nm: "buildAttributeName_refined (logicalPath_refined ''class/net'') = Some ''class.net''"
    by (simp add: logicalPath_refined_class_net buildAttributeName_refined_class_net)
  from directory_entry_policy [where fs = ?fs and resolve = ?R and a = "''class/net''"
      and m = Map.empty and fs' = ?fs and resolve' = ?R and trimSpace = "\<lambda>b. b"] h1 h2
  have "(\<exists>name. buildAttributeName_refined (logicalPath_refined ''class/net'') = Some name
         \<and> discoverEntry_part001 ?R ?fs ''class/net'' Map.empty = Some [name \<mapsto> []])
      \<and> discoverEntry_sysfs (\<lambda>b. b) ?R ?fs ''class/net'' Map.empty = Some Map.empty"
    by blast
  then have "discoverEntry_part001 ?R ?fs ''class/net'' Map.empty = Some [''class.net'' \<mapsto> []]
      \<and> discoverEntry_sysfs (\<lambda>b. b) ?R ?fs ''class/net'' Map.empty = Some Map.empty"
    using nm by auto
  then show ?thesis using h1 h2 by blast
qed

text \<open>
  Claim C7. In \<^verbatim>\<open>part_001\<close>, a whitelist entry that resolves to a regular file whose
  content cannot be read for lack of permission (opening or reading fails with
  \<^verbatim>\<open>EACCES\<close> or \<^verbatim>\<open>EPERM\<close>) is recorded with the empty value: the read returns the
  empty string and no error, the iteration stores it under the entry's name, and a run
  of \<open>Discover\<close> in which the entry comes last returns no error and holds it.
\<close>

theorem permission_denied_gives_empty_value:
  assumes "fs (resolve (logicalPath_refined a)) = Regular io"
    and "io = OpenError e \<or> io = ReadError e"
    and "os_IsPermission e"
  shows "\<exists>name. buildAttributeName_refined (logicalPath_refined a) = Some name
         \<and> readSingleParameter_part001 fs (resolve (logicalPath_refined a)) = Inr []
         \<and> discoverEntry_part001 resolve fs a m = Some (m(name \<mapsto> []))
         \<and> (\<exists>s'. Discover_part001 resolve fs (s\<lparr>SysfsWhitelist := xs @ [a]\<rparr>) = Some (s', None)
               \<and> GetFeatures s' name = Some [])"
proof -
  obtain name where n: "buildAttributeName_refined (logicalPath_refined a) = Some name"
    using buildAttributeName_refined_total [OF logicalPath_refined_nonempty] by blast
  have r: "readSingleParameter_part001 fs (resolve (logicalPath_refined a)) = Inr []"
    using assms by (rule readSingleParameter_part001_denied)
  have step: "discoverEntry_part001 resolve fs a m' = Some (m'(name \<mapsto> []))" for m'
    using r n by (simp add: discoverEntry_part001_def Let_def)
  show ?thesis
    using n r step Discover_part001_last [where s = s and xs = xs, OF step] by blast
qed

text \<open>
  Claim C7 at the entry \<^verbatim>\<open>class/net\<close>, here a file that cannot be opened.
\<close>

theorem permission_denied_gives_empty_value_witness:
  "(\<lambda>p. if p = ''/sys/class/net'' then Regular (OpenError EACCES) else NoNode ENOENT)
       ((\<lambda>p. ''/sys'' @ p) (logicalPath_refined ''class/net'')) = Regular (OpenError EACCES)
   \<and> os_IsPermission EACCES
   \<and> discoverEntry_part001 (\<lambda>p. ''/sys'' @ p)
        (\<lambda>p. if p = ''/sys/class/net'' then Regular (OpenError EACCES) else NoNode ENOENT)
        ''class/net'' Map.empty = Some [''class.net'' \<mapsto> []]"
proof -
  let ?fs = "\<lambda>p. if p = ''/sys/class/net'' then Regular (OpenError EACCES) else NoNode ENOENT"
  let ?R = "\<lambda>p::string. ''/sys'' @ p"
  have h1: "?fs (?R (logicalPath_refined ''class/net'')) = Regular (OpenError EACCES)"
    by (simp add: logicalPath_refined_class_net)
  have h2: "OpenError EACCES = OpenError EACCES \<or> OpenError EACCES = ReadError EACCES" by simp
  have h3: "os_IsPermission EACCES" by (simp add: os_IsPermission_def)
  have nm: "buildAttributeName_refined (logicalPath_refined ''class/net'') = Some ''class.net''"
    by (simp add: logicalPath_refined_class_net buildAttributeName_refined_class_net)
  from permission_denied_gives_empty_value [where fs = ?fs and resolve = ?R and a = "''class/net''"
      and m = Map.empty, OF h1 h2 h3]
  have "\<exists>name. buildAttributeName_refined (logicalPath_refined ''class/net'') = Some name
         \<and> discoverEntry_part001 ?R ?fs ''class/net'' Map.empty = Some [name \<mapsto> []]"
    by blast
  then have "discoverEntry_part001 ?R ?fs ''class/net'' Map.empty = Some [''class.net'' \<mapsto> []]"
    using nm by auto
  then show ?thesis using h1 h3 by blast
qed

text \<open>
  Claim C8. A whitelist entry whose path holds no node adds nothing: in \<^verbatim>\<open>part_001\<close>
  and in \<^verbatim>\<open>sysfs.go\<close> its iteration leaves the map unchanged, and for every
  whitelist around it \<open>Discover\<close> returns no error and the features it returns
  without the entry, so the other entries are processed as before.
\<close>

theorem missing_entry_is_skipped:
  "(fs (resolve (logicalPath_refined a)) = NoNode e \<longrightarrow>
        discoverEntry_part001 resolve fs a m = Some m
        \<and> (\<exists>s1 s2.
              Discover_part001 resolve fs (s\<lparr>SysfsWhitelist := xs @ a # ys\<rparr>) = Some (s1, None)
            \<and> Discover_part001 resolve fs (s\<lparr>SysfsWhitelist := xs @ ys\<rparr>) = Some (s2, None)
            \<and> GetFeatures s1 = GetFeatures s2))
   \<and> (fs' (resolve' (logicalPath_simple a)) = NoNode e' \<longrightarrow>
        discoverEntry_sysfs trimSpace resolve' fs' a m = Some m
        \<and> (\<exists>s1 s2.
              Discover_sysfs trimSpace resolve' fs' (s\<lparr>SysfsWhitelist := xs @ a # ys\<rparr>) = Some (s1, None)
            \<and> Discover_sysfs trimSpace resolve' fs' (s\<lparr>SysfsWhitelist := xs @ ys\<rparr>) = Some (s2, None)
            \<and> GetFeatures s1 = GetFeatures s2))"
proof (intro conjI impI)
  assume d: "fs (resolve (logicalPath_refined a)) = NoNode e"
  have step: "discoverEntry_part001 resolve fs a m' = Some m'" for m'
    using d by (simp add: discoverEntry_part001_def Let_def readSingleParameter_part001_missing)
  show "discoverEntry_part001 resolve fs a m = Some m" by (rule step)
  show "\<exists>s1 s2.
              Discover_part001 resolve fs (s\<lparr>SysfsWhitelist := xs @ a # ys\<rparr>) = Some (s1, None)
            \<and> Discover_part001 resolve fs (s\<lparr>SysfsWhitelist := xs @ ys\<rparr>) = Some (s2, None)
            \<and> GetFeatures s1 = GetFeatures s2"
    by (rule Discover_part001_skip) (rule step)
next
  assume d: "fs' (resolve' (logicalPath_simple a)) = NoNode e'"
  have step: "discoverEntry_sysfs trimSpace resolve' fs' a m' = Some m'" for m'
    using d by (simp add: discoverEntry_sysfs_def Let_def readSingleParameter_sysfs_missing)
  show "discoverEntry_sysfs trimSpace resolve' fs' a m = Some m" by (rule step)
  show "\<exists>s1 s2.
              Discover_sysfs trimSpace resolve' fs' (s\<lparr>SysfsWhitelist := xs @ a # ys\<rparr>) = Some (s1, None)
            \<and> Discover_sysfs trimSpace resolve' fs' (s\<lparr>SysfsWhitelist := xs @ ys\<rparr>) = Some (s2, None)
            \<and> GetFeatures s1 = GetFeatures s2"
    by (rule Discover_sysfs_skip) (rule step)
qed

text \<open>
  Claim C8 at the entry \<^verbatim>\<open>class/net\<close> on a tree with no node at all.
\<close>

theorem missing_entry_is_skipped_witness:
  "(\<lambda>p. NoNode ENOENT) ((\<lambda>p. ''/sys'' @ p) (logicalPath_refined ''class/net'')) = NoNode ENOENT
   \<and> (\<lambda>p. NoNode ENOENT) ((\<lambda>p. ''/sys'' @ p) (logicalPath_simple ''class/net'')) = NoNode ENOENT
   \<and> discoverEntry_part001 (\<lambda>p. ''/sys'' @ p) (\<lambda>p. NoNode ENOENT) ''class/net'' Map.empty
       = Some Map.empty
   \<and> discoverEntry_sysfs (\<lambda>b. b) (\<lambda>p. ''/sys'' @ p) (\<lambda>p. NoNode ENOENT) ''class/net'' Map.empty
       = Some Map.empty
   \<and> (\<exists>s1. Discover_part001 (\<lambda>p. ''/sys'' @ p) (\<lambda>p. NoNode ENOENT)
         \<lparr>SysfsWhitelist = [''class/net''], features = None\<rparr> = Some (s1, None)
         \<and> GetFeatures s1 = Map.empty)
   \<and> (\<exists>s1. Discover_sysfs (\<lambda>b. b) (\<lambda>p. ''/sys'' @ p) (\<lambda>p. NoNode ENOENT)
         \<lparr>SysfsWhitelist = [''class/net''], features = None\<rparr> = Some (s1, None)
         \<and> GetFeatures s1 = Map.empty)"
proof -
  let ?fs = "\<lambda>p::string. NoNode ENOENT"
  let ?R = "\<lambda>p::string. ''/sys'' @ p"
  let ?s = "\<lparr>SysfsWhitelist = [], features = None\<rparr>"
  have h1: "?fs (?R (logicalPath_refined ''class/net'')) = NoNode ENOENT" by simp
  have h2: "?fs (?R (logicalPath_simple ''class/net'')) = NoNode ENOENT" by simp
  have e1: "Discover_part001 ?R ?fs (?s\<lparr>SysfsWhitelist := [] @ []\<rparr>) = Some (s2, None)
      \<Longrightarrow> GetFeatures s2 = Map.empty" for s2
    by (auto simp: Discover_part001_def GetFeatures_def)
  have e2: "Discover_sysfs (\<lambda>b. b) ?R ?fs (?s\<lparr>SysfsWhitelist := [] @ []\<rparr>) = Some (s2, None)
      \<Longrightarrow> GetFeatures s2 = Map.empty" for s2
    by (auto simp: Discover_sysfs_def GetFeatures_def)
  from missing_entry_is_skipped [where fs = ?fs and resolve = ?R and a = "''class/net''"
      and m = Map.empty and fs' = ?fs and resolve' = ?R and trimSpace = "\<lambda>b. b"
      and e = ENOENT and e' = ENOENT and s = ?s and xs = "[]" and ys = "[]"] h1 h2
  have c: "discoverEntry_part001 ?R ?fs ''class/net'' Map.empty = Some Map.empty
     \<and> (\<exists>s1 s2. Discover_part001 ?R ?fs (?s\<lparr>SysfsWhitelist := [] @ ''class/net'' # []\<rparr>) = Some (s1, None)
            \<and> Discover_part001 ?R ?fs (?s\<lparr>SysfsWhitelist := [] @ []\<rparr>) = Some (s2, None)
            \<and> GetFeatures s1 = GetFeatures s2)
     \<and> discoverEntry_sysfs (\<lambda>b. b) ?R ?fs ''class/net'' Map.empty = Some Map.empty
     \<and> (\<exists>s1 s2. Discover_sysfs (\<lambda>b. b) ?R ?fs (?s\<lparr>SysfsWhitelist := [] @ ''class/net'' # []\<rparr>) = Some (s1, None)
            \<and> Discover_sysfs (\<lambda>b. b) ?R ?fs (?s\<lparr>SysfsWhitelist := [] @ []\<rparr>) = Some (s2, None)
            \<and> GetFeatures s1 = GetFeatures s2)"
    by blast
  then have d1: "\<exists>s1. Discover_part001 ?R ?fs (?s\<lparr>SysfsWhitelist := [] @ ''class/net'' # []\<rparr>) = Some (s1, None)
         \<and> GetFeatures s1 = Map.empty"
    using e1 by metis
  from c have d2: "\<exists>s1. Discover_sysfs (\<lambda>b. b) ?R ?fs (?s\<lparr>SysfsWhitelist := [] @ ''class/net'' # []\<rparr>) = Some (s1, None)
         \<and> GetFeatures s1 = Map.empty"
    using e2 by metis
  show ?thesis using c d1 d2 by simp
qed

text \<open>
  Claim C9. For a whitelist entry that does not start with a slash, both versions of
  \<open>Discover\<close> join it under \<^verbatim>\<open>/\<close> before cleaning: the joined path is the cleaned
  form of the entry with a slash put in front, and it is absolute. The logical path is
  the cleaned form of the joined path, which is again the cleaned form of the entry
  with a slash in front, and absolute. It is this path that the iteration hands to the
  root resolution and reads, and from which it builds the name.
\<close>

theorem relative_entry_is_rooted:
  assumes "\<not> filepath_IsAbs attr"
  shows "filepath_Join [''/'', attr] = filepath_Clean (''/'' @ attr)
       \<and> filepath_IsAbs (filepath_Join [''/'', attr])
       \<and> logicalPath_simple attr = filepath_Clean (filepath_Join [''/'', attr])
       \<and> logicalPath_refined attr = filepath_Clean (filepath_Join [''/'', attr])
       \<and> logicalPath_simple attr = filepath_Clean (''/'' @ attr)
       \<and> logicalPath_refined attr = filepath_Clean (''/'' @ attr)
       \<and> filepath_IsAbs (logicalPath_simple attr)
       \<and> filepath_IsAbs (logicalPath_refined attr)
       \<and> discoverEntry_sysfs trimSpace resolve fs attr m =
           (case readSingleParameter_sysfs trimSpace fs (resolve (filepath_Clean (''/'' @ attr))) of
              Inl err \<Rightarrow> Some m
            | Inr paramVal \<Rightarrow>
                (case buildAttributeName_simple (filepath_Clean (''/'' @ attr)) of
                   None \<Rightarrow> None
                 | Some name \<Rightarrow> Some (m(name \<mapsto> paramVal))))
       \<and> discoverEntry_part001 resolve fs attr m =
           (case readSingleParameter_part001 fs (resolve (filepath_Clean (''/'' @ attr))) of
              Inl err \<Rightarrow> Some m
            | Inr paramVal \<Rightarrow>
                (case buildAttributeName_refined (filepath_Clean (''/'' @ attr)) of
                   None \<Rightarrow> None
                 | Some name \<Rightarrow> Some (m(name \<mapsto> paramVal))))"
proof -
  have j: "filepath_Join [''/'', attr] = filepath_Clean (''/'' @ attr)"
    using Join_root [of attr] by simp
  have "filepath_IsAbs (''/'' @ attr)"
    by (simp add: filepath_IsAbs_def strings_HasPrefix_def)
  then have ja: "filepath_IsAbs (filepath_Join [''/'', attr])"
    unfolding j by (rule Clean_abs)
  have ns: "\<not> strings_HasPrefix attr ''/sys''"
    using assms by (cases attr) (auto simp: filepath_IsAbs_def strings_HasPrefix_def)
  have ls: "logicalPath_simple attr = filepath_Clean (filepath_Join [''/'', attr])"
    using assms by (simp add: logicalPath_simple_def)
  have lr: "logicalPath_refined attr = filepath_Clean (filepath_Join [''/'', attr])"
    using assms ns by (simp add: logicalPath_refined_def)
  have ls': "logicalPath_simple attr = filepath_Clean (''/'' @ attr)"
    using assms by (rule logicalPath_simple_relative)
  have lr': "logicalPath_refined attr = filepath_Clean (''/'' @ attr)"
    using assms by (rule logicalPath_refined_relative)
  have ca: "filepath_IsAbs (filepath_Clean (filepath_Join [''/'', attr]))"
    using ja by (rule Clean_abs)
  have d1: "discoverEntry_sysfs trimSpace resolve fs attr m =
           (case readSingleParameter_sysfs trimSpace fs (resolve (filepath_Clean (''/'' @ attr))) of
              Inl err \<Rightarrow> Some m
            | Inr paramVal \<Rightarrow>
                (case buildAttributeName_simple (filepath_Clean (''/'' @ attr)) of
                   None \<Rightarrow> None
                 | Some name \<Rightarrow> Some (m(name \<mapsto> paramVal))))"
    unfolding discoverEntry_sysfs_def Let_def ls' by (rule refl)
  have d2: "discoverEntry_part001 resolve fs attr m =
           (case readSingleParameter_part001 fs (resolve (filepath_Clean (''/'' @ attr))) of
              Inl err \<Rightarrow> Some m
            | Inr paramVal \<Rightarrow>
                (case buildAttributeName_refined (filepath_Clean (''/'' @ attr)) of
                   None \<Rightarrow> None
                 | Some name \<Rightarrow> Some (m(name \<mapsto> paramVal))))"
    unfolding discoverEntry_part001_def Let_def lr' by (rule refl)
  have a1: "filepath_IsAbs (logicalPath_simple attr)" using ca ls by simp
  have a2: "filepath_IsAbs (logicalPath_refined attr)" using ca lr by simp
  show ?thesis
    using j ja ls lr ls' lr' a1 a2 d1 d2 by (intro conjI)
qed

text \<open>
  Claim C9 at the entry \<^verbatim>\<open>class/power_supply/BAT0/capacity\<close>.
\<close>

theorem relative_entry_is_rooted_witness:
  "\<not> filepath_IsAbs ''class/power_supply/BAT0/capacity''
   \<and> logicalPath_simple ''class/power_supply/BAT0/capacity'' = ''/class/power_supply/BAT0/capacity''
   \<and> logicalPath_refined ''class/power_supply/BAT0/capacity'' = ''/class/power_supply/BAT0/capacity''"
proof -
  have h: "\<not> filepath_IsAbs ''class/power_supply/BAT0/capacity''"
    by (simp add: filepath_IsAbs_def strings_HasPrefix_def)
  have c: "filepath_Clean (''/'' @ ''class/power_supply/BAT0/capacity'')
      = ''/class/power_supply/BAT0/capacity''"
    by (simp add: filepath_Clean_def)
  from relative_entry_is_rooted [OF h]
  have "logicalPath_simple ''class/power_supply/BAT0/capacity''
          = filepath_Clean (''/'' @ ''class/power_supply/BAT0/capacity'')
      \<and> logicalPath_refined ''class/power_supply/BAT0/capacity''
          = filepath_Clean (''/'' @ ''class/power_supply/BAT0/capacity'')"
    by blast
  then show ?thesis using h c by simp
qed

text \<open>
  Claim C10. In \<^verbatim>\<open>part_001\<close> an entry that starts with \<^verbatim>\<open>/sys\<close> loses exactly
  these four bytes before the join and the cleaning. So an entry \<^verbatim>\<open>/sys/\<close> followed
  by a relative path has the logical path of the relative path alone:
  \<^verbatim>\<open>/sys/class/x\<close> and \<^verbatim>\<open>class/x\<close> have the same logical path and the same name.
  The removal looks at four bytes only, so \<^verbatim>\<open>/system\<close> is read as \<^verbatim>\<open>tem\<close>. The
  other versions keep the prefix.
\<close>

theorem sys_prefix_stripped:
  "logicalPath_refined (''/sys'' @ rest)
      = filepath_Clean (if \<not> filepath_IsAbs rest then filepath_Join [''/'', rest] else rest)
   \<and> logicalPath_refined (''/sys/'' @ rel) = filepath_Clean (''/'' @ rel)
   \<and> (\<not> filepath_IsAbs rel \<longrightarrow> logicalPath_refined (''/sys/'' @ rel) = logicalPath_refined rel)
   \<and> logicalPath_refined ''/sys/class/x'' = ''/class/x''
   \<and> logicalPath_refined ''class/x'' = ''/class/x''
   \<and> buildAttributeName_refined (logicalPath_refined ''/sys/class/x'') = Some ''class.x''
   \<and> buildAttributeName_refined (logicalPath_refined ''class/x'') = Some ''class.x''
   \<and> logicalPath_refined ''/system'' = ''/tem''
   \<and> logicalPath_refined ''tem'' = ''/tem''
   \<and> logicalPath_simple ''/sys/class/x'' = ''/sys/class/x''
   \<and> logicalPath_simple ''/system'' = ''/system''"
proof -
  have g: "logicalPath_refined (''/sys'' @ rest)
      = filepath_Clean (if \<not> filepath_IsAbs rest then filepath_Join [''/'', rest] else rest)"
    by (simp add: logicalPath_refined_def strings_HasPrefix_def)
  have g2: "logicalPath_refined (''/sys/'' @ rel) = filepath_Clean (''/'' @ rel)"
    by (simp add: logicalPath_refined_def strings_HasPrefix_def filepath_IsAbs_def)
  have g3: "\<not> filepath_IsAbs rel \<longrightarrow> logicalPath_refined (''/sys/'' @ rel) = logicalPath_refined rel"
    using g2 logicalPath_refined_relative [of rel] by simp
  have a: "logicalPath_refined ''/sys/class/x'' = ''/class/x''"
    by (simp add: logicalPath_refined_def strings_HasPrefix_def filepath_IsAbs_def filepath_Clean_def)
  have b: "logicalPath_refined ''class/x'' = ''/class/x''"
    by (simp add: logicalPath_refined_def strings_HasPrefix_def filepath_IsAbs_def filepath_Clean_def)
  have n: "buildAttributeName_refined ''/class/x'' = Some ''class.x''"
    by (simp add: buildAttributeName_refined_def sliceFrom_def strings_Replace_def)
  have c: "logicalPath_refined ''/system'' = ''/tem''"
    by (simp add: logicalPath_refined_def strings_HasPrefix_def filepath_IsAbs_def filepath_Clean_def)
  have d: "logicalPath_refined ''tem'' = ''/tem''"
    by (simp add: logicalPath_refined_def strings_HasPrefix_def filepath_IsAbs_def filepath_Clean_def)
  have e: "logicalPath_simple ''/sys/class/x'' = ''/sys/class/x''"
    by (simp add: logicalPath_simple_def strings_HasPrefix_def filepath_IsAbs_def filepath_Clean_def)
  have f: "logicalPath_simple ''/system'' = ''/system''"
    by (simp add: logicalPath_simple_def strings_HasPrefix_def filepath_IsAbs_def filepath_Clean_def)
  show ?thesis using g g2 g3 a b n c d e f by simp
qed

text \<open>
  Claim C10 at the entry \<^verbatim>\<open>/sys/class/net/eth0/mtu\<close>.
\<close>

theorem sys_prefix_stripped_witness:
  "\<not> filepath_IsAbs ''class/net/eth0/mtu''
   \<and> logicalPath_refined ''/sys/class/net/eth0/mtu'' = logicalPath_refined ''class/net/eth0/mtu''
   \<and> logicalPath_refined ''/sys/class/net/eth0/mtu'' = ''/class/net/eth0/mtu''"
proof -
  have h: "\<not> filepath_IsAbs ''class/net/eth0/mtu''"
    by (simp add: filepath_IsAbs_def strings_HasPrefix_def)
  have c: "filepath_Clean (''/'' @ ''class/net/eth0/mtu'') = ''/class/net/eth0/mtu''"
    by (simp add: filepath_Clean_def)
  from sys_prefix_stripped [of "[]" "''class/net/eth0/mtu''"]
  have "logicalPath_refined (''/sys/'' @ ''class/net/eth0/mtu'') = filepath_Clean (''/'' @ ''class/net/eth0/mtu'')
      \<and> (\<not> filepath_IsAbs ''class/net/eth0/mtu'' \<longrightarrow>
            logicalPath_refined (''/sys/'' @ ''class/net/eth0/mtu'') = logicalPath_refined ''class/net/eth0/mtu'')"
    by blast
  then have e1: "logicalPath_refined (''/sys/'' @ ''class/net/eth0/mtu'') = filepath_Clean (''/'' @ ''class/net/eth0/mtu'')"
    and e2: "logicalPath_refined (''/sys/'' @ ''class/net/eth0/mtu'') = logicalPath_refined ''class/net/eth0/mtu''"
    using h by blast+
  have "logicalPath_refined ''class/net/eth0/mtu'' = logicalPath_refined (''/sys/'' @ ''class/net/eth0/mtu'')"
    by (rule e2 [symmetric])
  also have "\<dots> = filepath_Clean (''/'' @ ''class/net/eth0/mtu'')" by (rule e1)
  also have "\<dots> = ''/class/net/eth0/mtu''" by (rule c)
  finally have e3: "logicalPath_refined ''class/net/eth0/mtu'' = ''/class/net/eth0/mtu''" .
  show ?thesis using h e1 e3 c by simp
qed

section \<open>The export of the labels\<close>

text \<open>
  In \<^verbatim>\<open>sysfs.go\<close> every key and every value \<^verbatim>\<open>GetLabels\<close> hands out is made of
  bytes of \<^verbatim>\<open>[-A-Za-z0-9_.]\<close>, whatever the iteration order.
\<close>

lemma replaceRunes_class:
  "list_all inLabelClass repl \<Longrightarrow> list_all inLabelClass (replaceRunes repl s)"
  by (induction repl s rule: replaceRunes.induct) auto

lemma rangeElements_sanitized:
  assumes "\<And>k v. labels k = Some v \<Longrightarrow> list_all inLabelClass k \<and> list_all inLabelClass v"
    and "rangeElements order elements labels k = Some v"
  shows "list_all inLabelClass k \<and> list_all inLabelClass v"
  using assms
proof (induction order arbitrary: labels)
  case Nil
  then show ?case by simp
next
  case (Cons key rest)
  show ?case
  proof (cases "elements key")
    case None
    then have "rangeElements rest elements labels k = Some v"
      using Cons.prems(2) by simp
    then show ?thesis using Cons.IH Cons.prems(1) by blast
  next
    case (Some w)
    have c: "list_all inLabelClass (replaceRunes ''_'' x)" for x
      by (rule replaceRunes_class) (simp add: inLabelClass_def)
    have "rangeElements rest elements (labels(replaceRunes ''_'' key \<mapsto> replaceRunes ''_'' w)) k = Some v"
      using Cons.prems(2) Some by simp
    moreover have "list_all inLabelClass k' \<and> list_all inLabelClass v'"
      if "(labels(replaceRunes ''_'' key \<mapsto> replaceRunes ''_'' w)) k' = Some v'" for k' v'
      using that Cons.prems(1) c by (auto split: if_splits)
    ultimately show ?thesis using Cons.IH by blast
  qed
qed

lemma GetLabels_sysfs_sanitized:
  "fst (GetLabels_sysfs order s) k = Some v \<Longrightarrow> list_all inLabelClass k \<and> list_all inLabelClass v"
  unfolding GetLabels_sysfs_def fst_conv
  by (rule rangeElements_sanitized [where labels = Map.empty]) simp_all

text \<open>
  Claim C5 at a failing input. In \<^verbatim>\<open>part_001\<close> the whitelist entry
  \<^verbatim>\<open>bus/pci/devices/0000:00:1f.2/vendor\<close>, a readable file, is discovered under a
  name that holds colons, and \<^verbatim>\<open>GetLabels\<close> hands the name out as it is. The pass
  of \<^verbatim>\<open>sysfs.go\<close> would have replaced the colons.
\<close>

theorem GetLabels_part001_exports_invalid_key:
  "Discover_part001 (\<lambda>p. ''/sys'' @ p)
      (\<lambda>p. if p = ''/sys/bus/pci/devices/0000:00:1f.2/vendor''
            then Regular (Content ''0x8086\<newline>'') else NoNode ENOENT)
      \<lparr>SysfsWhitelist = [''bus/pci/devices/0000:00:1f.2/vendor''], features = None\<rparr>
    = Some (\<lparr>SysfsWhitelist = [''bus/pci/devices/0000:00:1f.2/vendor''],
             features = Some [''bus.pci.devices.0000:00:1f.2.vendor'' \<mapsto> ''0x8086'']\<rparr>, None)
   \<and> GetLabels_part001
        \<lparr>SysfsWhitelist = [''bus/pci/devices/0000:00:1f.2/vendor''],
         features = Some [''bus.pci.devices.0000:00:1f.2.vendor'' \<mapsto> ''0x8086'']\<rparr>
      = ([''bus.pci.devices.0000:00:1f.2.vendor'' \<mapsto> ''0x8086''], None)
   \<and> \<not> list_all inLabelClass ''bus.pci.devices.0000:00:1f.2.vendor''
   \<and> replaceRunes ''_'' ''bus.pci.devices.0000:00:1f.2.vendor'' = ''bus.pci.devices.0000_00_1f.2.vendor''"
proof -
  have lp: "logicalPath_refined ''bus/pci/devices/0000:00:1f.2/vendor'' = ''/bus/pci/devices/0000:00:1f.2/vendor''"
    by (simp add: logicalPath_refined_def strings_HasPrefix_def filepath_IsAbs_def filepath_Clean_def)
  have nm: "buildAttributeName_refined ''/bus/pci/devices/0000:00:1f.2/vendor'' = Some ''bus.pci.devices.0000:00:1f.2.vendor''"
    by (simp add: buildAttributeName_refined_def sliceFrom_def strings_Replace_def)
  have cv: "convertToLabel ''0x8086\<newline>'' = ''0x8086''"
    by (simp add: convertToLabel_def replaceLeadingRun_def replaceTrailingRun_def
        inStartEndClass_def inLabelClass_def isAlnum_def)
  have rd: "readSingleParameter_part001
      (\<lambda>p. if p = ''/sys/bus/pci/devices/0000:00:1f.2/vendor''
            then Regular (Content ''0x8086\<newline>'') else NoNode ENOENT)
      ''/sys/bus/pci/devices/0000:00:1f.2/vendor'' = Inr ''0x8086''"
    by (simp add: readSingleParameter_part001_def os_Stat_def os_ReadFile_def os_Open_def cv)
  have d: "Discover_part001 (\<lambda>p. ''/sys'' @ p)
      (\<lambda>p. if p = ''/sys/bus/pci/devices/0000:00:1f.2/vendor''
            then Regular (Content ''0x8086\<newline>'') else NoNode ENOENT)
      \<lparr>SysfsWhitelist = [''bus/pci/devices/0000:00:1f.2/vendor''], features = None\<rparr>
    = Some (\<lparr>SysfsWhitelist = [''bus/pci/devices/0000:00:1f.2/vendor''],
             features = Some [''bus.pci.devices.0000:00:1f.2.vendor'' \<mapsto> ''0x8086'']\<rparr>, None)"
    using rd by (simp add: Discover_part001_def discoverEntry_part001_def lp nm)
  have g: "GetLabels_part001
        \<lparr>SysfsWhitelist = [''bus/pci/devices/0000:00:1f.2/vendor''],
         features = Some [''bus.pci.devices.0000:00:1f.2.vendor'' \<mapsto> ''0x8086'']\<rparr>
      = ([''bus.pci.devices.0000:00:1f.2.vendor'' \<mapsto> ''0x8086''], None)"
    by (simp add: GetLabels_part001_def GetFeatures_def)
  have i: "\<not> list_all inLabelClass ''bus.pci.devices.0000:00:1f.2.vendor''"
    by (simp add: inLabelClass_def isAlnum_def)
  have r: "replaceRunes ''_'' ''bus.pci.devices.0000:00:1f.2.vendor'' = ''bus.pci.devices.0000_00_1f.2.vendor''"
    by (simp add: inLabelClass_def isAlnum_def)
  show ?thesis using d g i r by simp
qed

end
